theory Spec2Isabelle
  imports Main
begin

section \<open>Python strings\<close>

text \<open>
  A Python \<open>str\<close> is modelled as a \<open>string\<close> (a list of 8-bit characters): a text over the
  code points below 256. \<open>isspace\<close> is \<open>str.isspace\<close> on these code points: tab, line feed,
  vertical tab, form feed, carriage return, the four separators 0x1C..0x1F, the space, the
  next-line character 0x85 and the no-break space 0xA0.
\<close>

abbreviation nl :: char where
  "nl \<equiv> CHR 0x0A"

abbreviation dq :: char where
  "dq \<equiv> CHR 0x22"

definition isspace :: "char \<Rightarrow> bool" where
  "isspace c = (let n = (of_char c :: nat) in (9 \<le> n \<and> n \<le> 13) \<or> (28 \<le> n \<and> n \<le> 32) \<or> n = 133 \<or> n = 160)"

definition lstrip :: "string \<Rightarrow> string" where
  "lstrip s = dropWhile isspace s"

definition rstrip :: "string \<Rightarrow> string" where
  "rstrip s = rev (dropWhile isspace (rev s))"

text \<open>\<open>s.strip()\<close>\<close>

definition strip :: "string \<Rightarrow> string" where
  "strip s = rstrip (lstrip s)"

text \<open>\<open>sep.join(xs)\<close>\<close>

fun join :: "string \<Rightarrow> string list \<Rightarrow> string" where
  "join sep [] = []"
| "join sep [x] = x"
| "join sep (x # y # ys) = x @ sep @ join sep (y # ys)"

text \<open>The decimal text of an integer, as an f-string inserts it.\<close>

fun digits_of :: "nat \<Rightarrow> string" where
  "digits_of n = (if n < 10 then [char_of (48 + n)] else digits_of (n div 10) @ [char_of (48 + n mod 10)])"

declare digits_of.simps [simp del]

definition str_int :: "int \<Rightarrow> string" where
  "str_int i = (if i < 0 then CHR ''-'' # digits_of (nat (- i)) else digits_of (nat i))"

section \<open>Instruction and stage model\<close>

record CopyInstruction =
  src :: string
  dest :: string
  from_stage :: "string option"

record AddInstruction =
  src :: string
  dest :: string
  chown :: "string option"

text \<open>\<open>CopyInstruction.to_docker\<close>: \<open>if self.from_stage\<close> is false for \<open>None\<close> and for the empty string.\<close>

definition copy_to_docker :: "CopyInstruction \<Rightarrow> string" where
  "copy_to_docker c =
     (case from_stage c of
        Some f \<Rightarrow>
          if f \<noteq> [] then ''COPY --from='' @ f @ '' '' @ CopyInstruction.src c @ '' '' @ CopyInstruction.dest c
          else ''COPY '' @ CopyInstruction.src c @ '' '' @ CopyInstruction.dest c
      | None \<Rightarrow> ''COPY '' @ CopyInstruction.src c @ '' '' @ CopyInstruction.dest c)"

text \<open>\<open>AddInstruction.to_docker\<close>\<close>

definition add_to_docker :: "AddInstruction \<Rightarrow> string" where
  "add_to_docker a =
     (case chown a of
        Some w \<Rightarrow>
          if w \<noteq> [] then ''ADD --chown='' @ w @ '' '' @ AddInstruction.src a @ '' '' @ AddInstruction.dest a
          else ''ADD '' @ AddInstruction.src a @ '' '' @ AddInstruction.dest a
      | None \<Rightarrow> ''ADD '' @ AddInstruction.src a @ '' '' @ AddInstruction.dest a)"

text \<open>
  \<open>DockerfileStage\<close> holds what the constructor stores: the collection fields after
  \<open>x or []\<close> / \<open>x or {}\<close> (so never \<open>None\<close>), the optional fields as given. A \<open>dict\<close> is the list
  of its items in insertion order, which is the order \<open>.items()\<close> iterates.
\<close>

record DockerfileStage =
  name :: "string option"
  base_image :: string
  workdir :: "string option"
  add :: "AddInstruction list"
  copy :: "CopyInstruction list"
  run_commands :: "string list"
  env_vars :: "(string \<times> string) list"
  args :: "(string \<times> string) list"
  expose_ports :: "int list"
  entrypoint :: "string list option"
  cmd :: "string list option"
  label_pairs :: "(string \<times> string) list"
  maintainer :: "string option"
  onbuild_cmd :: "string option"
  shell :: "string list option"
  stopsignal :: "string option"
  user :: "string option"
  volume_dirs :: "string list"
  healthcheck :: "string option"

section \<open>Dockerfile compiler\<close>

text \<open>
  \<open>generate_dockerfile\<close> appends to one list \<open>lines\<close> while it walks the stages. Each
  commented section of the loop body is one function from the list before the section to
  the list after it; \<open>render_stage\<close> is the loop body, \<open>generate_dockerfile\<close> the loop and the
  final \<open>"\n".join(lines).strip()\<close>.
\<close>

text \<open>\<open>",".join(f'"{e}"' for e in xs)\<close>\<close>

definition quoted_list :: "string list \<Rightarrow> string" where
  "quoted_list xs = join '','' (map (\<lambda>e. [dq] @ e @ [dq]) xs)"

definition emit_from :: "DockerfileStage \<Rightarrow> string list \<Rightarrow> string list" where
  "emit_from stage lines =
     (case name stage of
        Some n \<Rightarrow>
          if n \<noteq> [] then lines @ [''FROM '' @ base_image stage @ '' AS '' @ n]
          else lines @ [''FROM '' @ base_image stage]
      | None \<Rightarrow> lines @ [''FROM '' @ base_image stage])"

definition emit_maintainer :: "DockerfileStage \<Rightarrow> string list \<Rightarrow> string list" where
  "emit_maintainer stage lines =
     (case maintainer stage of
        Some m \<Rightarrow> if m \<noteq> [] then lines @ [''MAINTAINER '' @ m] else lines
      | None \<Rightarrow> lines)"

definition emit_label :: "DockerfileStage \<Rightarrow> string list \<Rightarrow> string list" where
  "emit_label stage lines =
     foldl (\<lambda>ls (k, v). ls @ [''LABEL '' @ k @ ''='' @ [dq] @ v @ [dq]]) lines (label_pairs stage)"

definition emit_arg :: "DockerfileStage \<Rightarrow> string list \<Rightarrow> string list" where
  "emit_arg stage lines =
     foldl (\<lambda>ls (k, v). ls @ [''ARG '' @ k @ ''='' @ v]) lines (args stage)"

definition emit_env :: "DockerfileStage \<Rightarrow> string list \<Rightarrow> string list" where
  "emit_env stage lines =
     foldl (\<lambda>ls (k, v). ls @ [''ENV '' @ k @ ''='' @ v]) lines (env_vars stage)"

definition emit_workdir :: "DockerfileStage \<Rightarrow> string list \<Rightarrow> string list" where
  "emit_workdir stage lines =
     (case workdir stage of
        Some w \<Rightarrow> if w \<noteq> [] then lines @ [''WORKDIR '' @ w] else lines
      | None \<Rightarrow> lines)"

definition emit_add :: "DockerfileStage \<Rightarrow> string list \<Rightarrow> string list" where
  "emit_add stage lines = foldl (\<lambda>ls add_inst. ls @ [add_to_docker add_inst]) lines (add stage)"

definition emit_copy :: "DockerfileStage \<Rightarrow> string list \<Rightarrow> string list" where
  "emit_copy stage lines = foldl (\<lambda>ls copy_inst. ls @ [copy_to_docker copy_inst]) lines (copy stage)"

definition emit_run :: "DockerfileStage \<Rightarrow> string list \<Rightarrow> string list" where
  "emit_run stage lines = foldl (\<lambda>ls c. ls @ [''RUN '' @ c]) lines (run_commands stage)"

definition emit_onbuild :: "DockerfileStage \<Rightarrow> string list \<Rightarrow> string list" where
  "emit_onbuild stage lines =
     (case onbuild_cmd stage of
        Some c \<Rightarrow> if c \<noteq> [] then lines @ [''ONBUILD '' @ c] else lines
      | None \<Rightarrow> lines)"

definition emit_shell :: "DockerfileStage \<Rightarrow> string list \<Rightarrow> string list" where
  "emit_shell stage lines =
     (case shell stage of
        Some sh \<Rightarrow> if sh \<noteq> [] then lines @ [''SHELL ['' @ quoted_list sh @ '']''] else lines
      | None \<Rightarrow> lines)"

definition emit_stopsignal :: "DockerfileStage \<Rightarrow> string list \<Rightarrow> string list" where
  "emit_stopsignal stage lines =
     (case stopsignal stage of
        Some g \<Rightarrow> if g \<noteq> [] then lines @ [''STOPSIGNAL '' @ g] else lines
      | None \<Rightarrow> lines)"

definition emit_user :: "DockerfileStage \<Rightarrow> string list \<Rightarrow> string list" where
  "emit_user stage lines =
     (case user stage of
        Some u \<Rightarrow> if u \<noteq> [] then lines @ [''USER '' @ u] else lines
      | None \<Rightarrow> lines)"

definition emit_volume :: "DockerfileStage \<Rightarrow> string list \<Rightarrow> string list" where
  "emit_volume stage lines =
     foldl (\<lambda>ls v. ls @ [''VOLUME ['' @ [dq] @ v @ [dq] @ '']'']) lines (volume_dirs stage)"

definition emit_expose :: "DockerfileStage \<Rightarrow> string list \<Rightarrow> string list" where
  "emit_expose stage lines =
     foldl (\<lambda>ls port. ls @ [''EXPOSE '' @ str_int port]) lines (expose_ports stage)"

definition emit_healthcheck :: "DockerfileStage \<Rightarrow> string list \<Rightarrow> string list" where
  "emit_healthcheck stage lines =
     (case healthcheck stage of
        Some h \<Rightarrow> if h \<noteq> [] then lines @ [''HEALTHCHECK '' @ h] else lines
      | None \<Rightarrow> lines)"

definition emit_entrypoint :: "DockerfileStage \<Rightarrow> string list \<Rightarrow> string list" where
  "emit_entrypoint stage lines =
     (case entrypoint stage of
        Some e \<Rightarrow> if e \<noteq> [] then lines @ [''ENTRYPOINT ['' @ quoted_list e @ '']''] else lines
      | None \<Rightarrow> lines)"

definition emit_cmd :: "DockerfileStage \<Rightarrow> string list \<Rightarrow> string list" where
  "emit_cmd stage lines =
     (case cmd stage of
        Some c \<Rightarrow> if c \<noteq> [] then lines @ [''CMD ['' @ quoted_list c @ '']''] else lines
      | None \<Rightarrow> lines)"

text \<open>The body of \<open>for stage in stages\<close>, ending with \<open>lines.append("")\<close>.\<close>

definition render_stage :: "DockerfileStage \<Rightarrow> string list \<Rightarrow> string list" where
  "render_stage stage lines =
     (let lines = emit_from stage lines;
          lines = emit_maintainer stage lines;
          lines = emit_label stage lines;
          lines = emit_arg stage lines;
          lines = emit_env stage lines;
          lines = emit_workdir stage lines;
          lines = emit_add stage lines;
          lines = emit_copy stage lines;
          lines = emit_run stage lines;
          lines = emit_onbuild stage lines;
          lines = emit_shell stage lines;
          lines = emit_stopsignal stage lines;
          lines = emit_user stage lines;
          lines = emit_volume stage lines;
          lines = emit_expose stage lines;
          lines = emit_healthcheck stage lines;
          lines = emit_entrypoint stage lines;
          lines = emit_cmd stage lines
      in lines @ [''''])"

definition dockerfile_lines :: "DockerfileStage list \<Rightarrow> string list" where
  "dockerfile_lines stages = foldl (\<lambda>lines stage. render_stage stage lines) [] stages"

definition generate_dockerfile :: "DockerfileStage list \<Rightarrow> string" where
  "generate_dockerfile stages = strip (join [nl] (dockerfile_lines stages))"

section \<open>The directive order, in the words of the specification\<close>

text \<open>
  The specification's ordering rule, written down independently of the loop: the block of
  one stage is the concatenation of its directives in the fixed order, each directive
  being absent when its field is absent or empty.
\<close>

definition from_directive :: "DockerfileStage \<Rightarrow> string list" where
  "from_directive s =
     (case name s of
        Some n \<Rightarrow> if n \<noteq> [] then [''FROM '' @ base_image s @ '' AS '' @ n] else [''FROM '' @ base_image s]
      | None \<Rightarrow> [''FROM '' @ base_image s])"

text \<open>An optional text field renders one line when it is present and not empty, none otherwise.\<close>

definition optional_directive :: "string \<Rightarrow> string option \<Rightarrow> string list" where
  "optional_directive keyword field =
     (case field of Some v \<Rightarrow> if v \<noteq> [] then [keyword @ '' '' @ v] else [] | None \<Rightarrow> [])"

definition vector_directive :: "string \<Rightarrow> string list option \<Rightarrow> string list" where
  "vector_directive keyword field =
     (case field of
        Some v \<Rightarrow> if v \<noteq> [] then [keyword @ '' ['' @ quoted_list v @ '']''] else []
      | None \<Rightarrow> [])"

definition stage_block :: "DockerfileStage \<Rightarrow> string list" where
  "stage_block s =
     from_directive s
     @ optional_directive ''MAINTAINER'' (maintainer s)
     @ map (\<lambda>(k, v). ''LABEL '' @ k @ ''='' @ [dq] @ v @ [dq]) (label_pairs s)
     @ map (\<lambda>(k, v). ''ARG '' @ k @ ''='' @ v) (args s)
     @ map (\<lambda>(k, v). ''ENV '' @ k @ ''='' @ v) (env_vars s)
     @ optional_directive ''WORKDIR'' (workdir s)
     @ map add_to_docker (add s)
     @ map copy_to_docker (copy s)
     @ map (\<lambda>c. ''RUN '' @ c) (run_commands s)
     @ optional_directive ''ONBUILD'' (onbuild_cmd s)
     @ vector_directive ''SHELL'' (shell s)
     @ optional_directive ''STOPSIGNAL'' (stopsignal s)
     @ optional_directive ''USER'' (user s)
     @ map (\<lambda>v. ''VOLUME ['' @ [dq] @ v @ [dq] @ '']'') (volume_dirs s)
     @ map (\<lambda>p. ''EXPOSE '' @ str_int p) (expose_ports s)
     @ optional_directive ''HEALTHCHECK'' (healthcheck s)
     @ vector_directive ''ENTRYPOINT'' (entrypoint s)
     @ vector_directive ''CMD'' (cmd s)"

text \<open>The text of one stage's block: its lines joined by line feeds.\<close>

definition stage_text :: "DockerfileStage \<Rightarrow> string" where
  "stage_text s = join [nl] (stage_block s)"

text \<open>
  Blocks of lines with exactly one empty line between consecutive blocks, and a block whose
  last line has lost the whitespace that ends it.
\<close>

fun separated_by_blank :: "string list list \<Rightarrow> string list" where
  "separated_by_blank [] = []"
| "separated_by_blank [b] = b"
| "separated_by_blank (b # c # bs) = b @ [''''] @ separated_by_blank (c # bs)"

definition trim_end :: "string list \<Rightarrow> string list" where
  "trim_end b = butlast b @ [rstrip (last b)]"

text \<open>The keyword of a rendered line: the text before its first space.\<close>

definition directive_keyword :: "string \<Rightarrow> string" where
  "directive_keyword line = takeWhile (\<lambda>c. c \<noteq> CHR '' '') line"

text \<open>How many lines an optional field contributes: one when present and not empty.\<close>

definition present :: "string option \<Rightarrow> nat" where
  "present field = (case field of Some v \<Rightarrow> if v \<noteq> [] then 1 else 0 | None \<Rightarrow> 0)"

definition present_vector :: "string list option \<Rightarrow> nat" where
  "present_vector field = (case field of Some v \<Rightarrow> if v \<noteq> [] then 1 else 0 | None \<Rightarrow> 0)"

text \<open>The keywords of one stage's block, in the order the specification fixes.\<close>

definition stage_keywords :: "DockerfileStage \<Rightarrow> string list" where
  "stage_keywords s =
     [''FROM'']
     @ replicate (present (maintainer s)) ''MAINTAINER''
     @ replicate (length (label_pairs s)) ''LABEL''
     @ replicate (length (args s)) ''ARG''
     @ replicate (length (env_vars s)) ''ENV''
     @ replicate (present (workdir s)) ''WORKDIR''
     @ replicate (length (add s)) ''ADD''
     @ replicate (length (copy s)) ''COPY''
     @ replicate (length (run_commands s)) ''RUN''
     @ replicate (present (onbuild_cmd s)) ''ONBUILD''
     @ replicate (present_vector (shell s)) ''SHELL''
     @ replicate (present (stopsignal s)) ''STOPSIGNAL''
     @ replicate (present (user s)) ''USER''
     @ replicate (length (volume_dirs s)) ''VOLUME''
     @ replicate (length (expose_ports s)) ''EXPOSE''
     @ replicate (present (healthcheck s)) ''HEALTHCHECK''
     @ replicate (present_vector (entrypoint s)) ''ENTRYPOINT''
     @ replicate (present_vector (cmd s)) ''CMD''"

text \<open>\<open>DockerfileStage(name, base_image)\<close>: every other argument at its default.\<close>

definition stage_defaults :: "string option \<Rightarrow> string \<Rightarrow> DockerfileStage" where
  "stage_defaults n b =
     \<lparr>name = n, base_image = b, workdir = None, add = [], copy = [], run_commands = [],
      env_vars = [], args = [], expose_ports = [], entrypoint = None, cmd = None,
      label_pairs = [], maintainer = None, onbuild_cmd = None, shell = None,
      stopsignal = None, user = None, volume_dirs = [], healthcheck = None\<rparr>"

definition example_build :: DockerfileStage where
  "example_build = (stage_defaults (Some ''build'') ''golang:1.22'')\<lparr>run_commands := [''go build -o /app'']\<rparr>"

definition example_final :: DockerfileStage where
  "example_final = (stage_defaults None ''alpine'')\<lparr>cmd := Some [''/app'']\<rparr>"

section \<open>Configuration loader\<close>

text \<open>\<open>s.split(sep)\<close> for a one-character separator: the empty text gives one empty token.\<close>

fun split_on :: "char \<Rightarrow> string \<Rightarrow> string list" where
  "split_on sep [] = [[]]"
| "split_on sep (c # cs) =
     (if c = sep then [] # split_on sep cs
      else (case split_on sep cs of t # ts \<Rightarrow> (c # t) # ts | [] \<Rightarrow> [[c]]))"

text \<open>\<open>d[k] = v\<close> on a dict kept as its item list: a known key keeps its place and takes the new
  value, a new key goes last.\<close>

fun dict_set :: "('k \<times> 'v) list \<Rightarrow> 'k \<Rightarrow> 'v \<Rightarrow> ('k \<times> 'v) list" where
  "dict_set [] k v = [(k, v)]"
| "dict_set ((k', v') # d) k v = (if k' = k then (k, v) # d else (k', v') # dict_set d k v)"

text \<open>\<open>s.split(sep, 1)\<close> for a text that contains the separator: the parts before and after its
  first occurrence.\<close>

definition split_first :: "char \<Rightarrow> string \<Rightarrow> string \<times> string" where
  "split_first sep s = (takeWhile (\<lambda>c. c \<noteq> sep) s, tl (dropWhile (\<lambda>c. c \<noteq> sep) s))"

text \<open>\<open>parse_key_value_pairs\<close>; the separator is the one character every caller passes.\<close>

definition parse_key_value_pairs :: "string option \<Rightarrow> char \<Rightarrow> (string \<times> string) list" where
  "parse_key_value_pairs cell sep =
     (case cell of
        None \<Rightarrow> []
      | Some c \<Rightarrow>
          if c = [] \<or> strip c = [] then []
          else foldl (\<lambda>result kv.
                  if CHR ''='' \<in> set kv
                  then (case split_first (CHR ''='') kv of (k, v) \<Rightarrow> dict_set result (strip k) (strip v))
                  else result)
                [] (split_on sep c))"

text \<open>The tokens of a map-valued field that contain an \<open>=\<close>, and the trimmed key and value of one.\<close>

definition kv_tokens :: "char \<Rightarrow> string \<Rightarrow> string list" where
  "kv_tokens sep c = filter (\<lambda>kv. CHR ''='' \<in> set kv) (split_on sep c)"

definition token_key :: "string \<Rightarrow> string" where
  "token_key kv = strip (takeWhile (\<lambda>c. c \<noteq> CHR ''='') kv)"

definition token_value :: "string \<Rightarrow> string" where
  "token_value kv = strip (tl (dropWhile (\<lambda>c. c \<noteq> CHR ''='') kv))"

text \<open>The elements of a list in the order in which each occurs first.\<close>

fun first_occurrences :: "'a list \<Rightarrow> 'a list" where
  "first_occurrences [] = []"
| "first_occurrences (x # xs) = x # filter (\<lambda>y. y \<noteq> x) (first_occurrences xs)"

text \<open>The number of rendered lines with a given keyword.\<close>

definition count_directives :: "string \<Rightarrow> string list \<Rightarrow> nat" where
  "count_directives keyword lines = length (filter (\<lambda>l. directive_keyword l = keyword) lines)"

text \<open>
  What the loader can raise: a missing column (\<open>KeyError\<close>) and the errors of
  \<open>int(float(\<cdot>))\<close> on a port token.
\<close>

datatype py_error = KeyError string | ValueError | OverflowError

text \<open>
  A decoded JSON document, as \<open>json.loads\<close> returns it: \<open>None\<close>, \<open>bool\<close>, \<open>int\<close>, \<open>float\<close> (kept as
  its literal text), \<open>str\<close>, \<open>list\<close> and \<open>dict\<close> (its items in insertion order).
\<close>

datatype json =
    JNull
  | JBool bool
  | JInt int
  | JFloat string
  | JStr string
  | JArr "json list"
  | JObj "(string \<times> json) list"

text \<open>
  The library functions the loader calls are parameters of the model, so that what is
  proved holds for every behaviour of theirs: \<open>json.loads\<close> (\<open>None\<close> when it raises),
  \<open>int(float(\<cdot>))\<close>, and \<open>str\<close> and \<open>bool\<close> of a decoded value that is not a string.
\<close>

record builtins =
  json_loads :: "string \<Rightarrow> json option"
  int_float :: "string \<Rightarrow> py_error + int"
  str_value :: "json \<Rightarrow> string"
  truth_value :: "json \<Rightarrow> bool"

text \<open>
  One record: a spreadsheet row after \<open>fillna('')\<close>, as the list of its columns with each
  cell's text; a missing cell is the empty text. The model covers sheets whose cells are
  texts. A cell that is a number enters the source through \<open>str\<close>, where its text stands for
  it, except in the optional fields that the stage takes as they are (\<open>stage_name\<close>,
  \<open>workdir\<close>, \<open>maintainer\<close>, \<open>onbuild_cmd\<close>, \<open>stopsignal\<close>, \<open>user\<close>, \<open>healthcheck\<close>), where the
  compiler tests the truth value of the cell itself: a numeric cell in one of these columns
  is outside the model. \<open>row_get\<close> is \<open>row.get(k, d)\<close>, \<open>row_item\<close> is \<open>row[k]\<close>.
\<close>

type_synonym row = "(string \<times> string) list"

definition row_get :: "row \<Rightarrow> string \<Rightarrow> string \<Rightarrow> string" where
  "row_get r k d = (case map_of r k of Some v \<Rightarrow> v | None \<Rightarrow> d)"

definition row_item :: "row \<Rightarrow> string \<Rightarrow> py_error + string" where
  "row_item r k = (case map_of r k of Some v \<Rightarrow> Inr v | None \<Rightarrow> Inl (KeyError k))"

text \<open>\<open>s.split()\<close>: the maximal runs of characters that are not whitespace.\<close>

fun split_ws_from :: "string \<Rightarrow> string \<Rightarrow> string list" where
  "split_ws_from cur [] = (if cur = [] then [] else [cur])"
| "split_ws_from cur (c # cs) =
     (if isspace c then (if cur = [] then split_ws_from [] cs else cur # split_ws_from [] cs)
      else split_ws_from (cur @ [c]) cs)"

definition split_ws :: "string \<Rightarrow> string list" where
  "split_ws s = split_ws_from [] s"

text \<open>\<open>s.replace(",", ";")\<close>\<close>

definition commas_to_semicolons :: "string \<Rightarrow> string" where
  "commas_to_semicolons s = map (\<lambda>c. if c = CHR '','' then CHR '';'' else c) s"

text \<open>\<open>[t.strip() for t in s.split(";") if t.strip()]\<close>\<close>

definition stripped_tokens :: "string \<Rightarrow> string list" where
  "stripped_tokens s = map strip (filter (\<lambda>t. strip t \<noteq> []) (split_on (CHR '';'') s))"

text \<open>
  The text an instruction field holds for a decoded value, and the optional field for
  \<open>a.get(k)\<close>: a missing key, \<open>null\<close> and any other false value render nothing, as the
  \<open>if self.chown\<close> of \<open>to_docker\<close> decides.
\<close>

definition field_text :: "builtins \<Rightarrow> json \<Rightarrow> string" where
  "field_text py v = (case v of JStr s \<Rightarrow> s | _ \<Rightarrow> str_value py v)"

definition optional_text :: "builtins \<Rightarrow> json option \<Rightarrow> string option" where
  "optional_text py v =
     (case v of
        None \<Rightarrow> None
      | Some JNull \<Rightarrow> None
      | Some (JStr s) \<Rightarrow> Some s
      | Some w \<Rightarrow> if truth_value py w then Some (str_value py w) else None)"

text \<open>
  One pass of \<open>for a in add_list\<close>: \<open>a["src"]\<close> and \<open>a["dest"]\<close> raise unless \<open>a\<close> is an object
  with both keys (\<open>None\<close> here).
\<close>

definition add_of_item :: "builtins \<Rightarrow> json \<Rightarrow> AddInstruction option" where
  "add_of_item py a =
     (case a of
        JObj kvs \<Rightarrow>
          (case map_of kvs ''src'' of
             None \<Rightarrow> None
           | Some s \<Rightarrow>
               (case map_of kvs ''dest'' of
                  None \<Rightarrow> None
                | Some d \<Rightarrow>
                    Some \<lparr>AddInstruction.src = field_text py s, AddInstruction.dest = field_text py d,
                          chown = optional_text py (map_of kvs ''chown'')\<rparr>))
      | _ \<Rightarrow> None)"

definition copy_of_item :: "builtins \<Rightarrow> json \<Rightarrow> CopyInstruction option" where
  "copy_of_item py c =
     (case c of
        JObj kvs \<Rightarrow>
          (case map_of kvs ''src'' of
             None \<Rightarrow> None
           | Some s \<Rightarrow>
               (case map_of kvs ''dest'' of
                  None \<Rightarrow> None
                | Some d \<Rightarrow>
                    Some \<lparr>CopyInstruction.src = field_text py s, CopyInstruction.dest = field_text py d,
                          from_stage = optional_text py (map_of kvs ''from'')\<rparr>))
      | _ \<Rightarrow> None)"

text \<open>
  A loop inside \<open>try ... except Exception: pass\<close>: the instructions appended before the
  first pass that raises are kept.
\<close>

fun append_until_error :: "('a \<Rightarrow> 'b option) \<Rightarrow> 'a list \<Rightarrow> 'b list" where
  "append_until_error f [] = []"
| "append_until_error f (x # xs) = (case f x of None \<Rightarrow> [] | Some y \<Rightarrow> y # append_until_error f xs)"

text \<open>
  The \<open>add_files\<close> and \<open>copy_pairs\<close> sections. A decoded value that is not a list gives no
  instruction: iterating a dict or a string yields strings, which cannot be indexed by
  \<open>"src"\<close>, and the other values cannot be iterated.
\<close>

definition load_add :: "builtins \<Rightarrow> row \<Rightarrow> AddInstruction list" where
  "load_add py r =
     (if strip (row_get r ''add_files'' '''') \<noteq> ''''
      then (case json_loads py (row_get r ''add_files'' '''') of
              None \<Rightarrow> []
            | Some (JArr add_list) \<Rightarrow> append_until_error (add_of_item py) add_list
            | Some _ \<Rightarrow> [])
      else [])"

definition load_copy :: "builtins \<Rightarrow> row \<Rightarrow> CopyInstruction list" where
  "load_copy py r =
     (if strip (row_get r ''copy_pairs'' '''') \<noteq> ''''
      then (case json_loads py (row_get r ''copy_pairs'' '''') of
              None \<Rightarrow> []
            | Some (JArr copy_list) \<Rightarrow> append_until_error (copy_of_item py) copy_list
            | Some _ \<Rightarrow> [])
      else [])"

definition load_run :: "row \<Rightarrow> string list" where
  "load_run r =
     (if strip (row_get r ''run_commands'' '''') \<noteq> ''''
      then stripped_tokens (row_get r ''run_commands'' '''')
      else [])"

text \<open>The list comprehension over the port tokens: the first token that raises ends it.\<close>

fun convert_ports :: "builtins \<Rightarrow> string list \<Rightarrow> py_error + int list" where
  "convert_ports py [] = Inr []"
| "convert_ports py (p # ps) =
     (case int_float py p of
        Inl e \<Rightarrow> Inl e
      | Inr i \<Rightarrow> (case convert_ports py ps of Inl e \<Rightarrow> Inl e | Inr is \<Rightarrow> Inr (i # is)))"

definition load_ports :: "builtins \<Rightarrow> row \<Rightarrow> py_error + int list" where
  "load_ports py r =
     (if strip (row_get r ''expose_ports'' '''') \<noteq> ''''
      then convert_ports py (stripped_tokens (commas_to_semicolons (row_get r ''expose_ports'' '''')))
      else Inr [])"

text \<open>\<open>entrypoint\<close> and \<open>cmd\<close>: the whitespace-separated tokens of a non-blank cell.\<close>

definition load_vector :: "row \<Rightarrow> string \<Rightarrow> string list option" where
  "load_vector r k = (if strip (row_get r k '''') \<noteq> '''' then Some (split_ws (row_get r k '''')) else None)"

text \<open>
  The \<open>shell\<close> section. The stage's shell is typed as the constructor annotates it, a list
  of strings: a decoded list gives its elements, a decoded string its characters and a
  decoded object its keys, as iterating them does; \<open>null\<close>, zero and \<open>false\<close> give no shell,
  as their truth value does. A decoded number other than zero and \<open>true\<close> have no counterpart
  in the typed stage (the source stores them, and \<open>generate_dockerfile\<close> raises \<open>TypeError\<close>
  when it iterates them): such a cell is outside the model, which gives it no shell.
\<close>

definition shell_of_value :: "builtins \<Rightarrow> json \<Rightarrow> string list option" where
  "shell_of_value py v =
     (case v of
        JArr xs \<Rightarrow> Some (map (field_text py) xs)
      | JStr s \<Rightarrow> Some (map (\<lambda>c. [c]) s)
      | JObj kvs \<Rightarrow> Some (map fst kvs)
      | _ \<Rightarrow> None)"

definition load_shell :: "builtins \<Rightarrow> row \<Rightarrow> string list option" where
  "load_shell py r =
     (if strip (row_get r ''shell'' '''') \<noteq> ''''
      then (case json_loads py (row_get r ''shell'' '''') of
              Some v \<Rightarrow> shell_of_value py v
            | None \<Rightarrow> Some (split_ws (row_get r ''shell'' '''')))
      else None)"

definition load_volumes :: "row \<Rightarrow> string list" where
  "load_volumes r =
     (if strip (row_get r ''volume_dirs'' '''') \<noteq> ''''
      then stripped_tokens (commas_to_semicolons (row_get r ''volume_dirs'' ''''))
      else [])"

text \<open>
  The body of \<open>for _, row in df.iterrows()\<close> up to the constructed stage. The three places
  that can raise are taken in the order the source evaluates them: \<open>row["app_name"]\<close>, the
  port conversion, \<open>row["base_image"]\<close>.
\<close>

definition load_row :: "builtins \<Rightarrow> row \<Rightarrow> py_error + (string \<times> DockerfileStage)" where
  "load_row py r =
     (case row_item r ''app_name'' of
        Inl e \<Rightarrow> Inl e
      | Inr app_name \<Rightarrow>
          (case load_ports py r of
             Inl e \<Rightarrow> Inl e
           | Inr ports \<Rightarrow>
               (case row_item r ''base_image'' of
                  Inl e \<Rightarrow> Inl e
                | Inr img \<Rightarrow>
                    Inr (app_name,
                         \<lparr>name = map_of r ''stage_name'',
                          base_image = img,
                          workdir = map_of r ''workdir'',
                          add = load_add py r,
                          copy = load_copy py r,
                          run_commands = load_run r,
                          env_vars = parse_key_value_pairs (Some (row_get r ''env_vars'' '''')) (CHR '';''),
                          args = parse_key_value_pairs (Some (row_get r ''args'' '''')) (CHR '';''),
                          expose_ports = ports,
                          entrypoint = load_vector r ''entrypoint'',
                          cmd = load_vector r ''cmd'',
                          label_pairs = parse_key_value_pairs (Some (row_get r ''label_pairs'' '''')) (CHR '';''),
                          maintainer = map_of r ''maintainer'',
                          onbuild_cmd = map_of r ''onbuild_cmd'',
                          shell = load_shell py r,
                          stopsignal = map_of r ''stopsignal'',
                          user = map_of r ''user'',
                          volume_dirs = load_volumes r,
                          healthcheck = map_of r ''healthcheck''\<rparr>))))"

text \<open>\<open>if app_name not in app_configs: app_configs[app_name] = []\<close>, then the \<open>append\<close>.\<close>

definition append_stage ::
  "(string \<times> DockerfileStage list) list \<Rightarrow> string \<Rightarrow> DockerfileStage \<Rightarrow> (string \<times> DockerfileStage list) list" where
  "append_stage app_configs app_name stage =
     (case map_of app_configs app_name of
        None \<Rightarrow> dict_set app_configs app_name [stage]
      | Some stages \<Rightarrow> dict_set app_configs app_name (stages @ [stage]))"

text \<open>The loop over the rows: an exception in one row leaves the function.\<close>

fun load_rows ::
  "builtins \<Rightarrow> row list \<Rightarrow> (string \<times> DockerfileStage list) list \<Rightarrow> py_error + (string \<times> DockerfileStage list) list" where
  "load_rows py [] app_configs = Inr app_configs"
| "load_rows py (r # rs) app_configs =
     (case load_row py r of
        Inl e \<Rightarrow> Inl e
      | Inr (app_name, stage) \<Rightarrow> load_rows py rs (append_stage app_configs app_name stage))"

definition load_configs_from_excel :: "builtins \<Rightarrow> row list \<Rightarrow> py_error + (string \<times> DockerfileStage list) list" where
  "load_configs_from_excel py rows = load_rows py rows []"

subsection \<open>A concrete runtime\<close>

text \<open>
  A concrete \<open>json.loads\<close>, following the grammar of Python's decoder on ASCII text:
  whitespace is space, tab, line feed and carriage return; a number is
  \<open>-?(0|[1-9][0-9]*)(\.[0-9]+)?([eE][-+]?[0-9]+)?\<close>; \<open>NaN\<close>, \<open>Infinity\<close> and \<open>-Infinity\<close> are
  accepted; a control character inside a string is refused. A \<open>\\u\<close> escape above 0xFF has no
  character in the 8-bit model and is read as \<open>?\<close>.
\<close>

definition json_ws :: "char \<Rightarrow> bool" where
  "json_ws c = (c = CHR '' '' \<or> c = CHR 0x09 \<or> c = CHR 0x0A \<or> c = CHR 0x0D)"

definition skip_ws :: "string \<Rightarrow> string" where
  "skip_ws s = dropWhile json_ws s"

definition is_digit :: "char \<Rightarrow> bool" where
  "is_digit c = (48 \<le> (of_char c :: nat) \<and> (of_char c :: nat) \<le> 57)"

definition nat_of_digits :: "string \<Rightarrow> nat" where
  "nat_of_digits ds = foldl (\<lambda>n c. 10 * n + (of_char c - 48)) 0 ds"

definition hex_val :: "char \<Rightarrow> nat option" where
  "hex_val c =
     (let n = (of_char c :: nat) in
      if 48 \<le> n \<and> n \<le> 57 then Some (n - 48)
      else if 97 \<le> n \<and> n \<le> 102 then Some (n - 87)
      else if 65 \<le> n \<and> n \<le> 70 then Some (n - 55)
      else None)"

definition hex4 :: "string \<Rightarrow> nat option" where
  "hex4 s =
     (case map hex_val (take 4 s) of
        [Some a, Some b, Some c, Some d] \<Rightarrow> Some (((a * 16 + b) * 16 + c) * 16 + d)
      | _ \<Rightarrow> None)"

definition escape_char :: "char \<Rightarrow> char option" where
  "escape_char e =
     (if e = dq then Some dq
      else if e = CHR 0x5C then Some (CHR 0x5C)
      else if e = CHR ''/'' then Some (CHR ''/'')
      else if e = CHR ''b'' then Some (CHR 0x08)
      else if e = CHR ''f'' then Some (CHR 0x0C)
      else if e = CHR ''n'' then Some (CHR 0x0A)
      else if e = CHR ''r'' then Some (CHR 0x0D)
      else if e = CHR ''t'' then Some (CHR 0x09)
      else None)"

definition code_point_char :: "nat \<Rightarrow> char" where
  "code_point_char n = (if n < 256 then char_of n else CHR ''?'')"

text \<open>The text after an opening quote: the decoded string and what follows its closing quote.\<close>

fun scan_string :: "string \<Rightarrow> (string \<times> string) option" where
  "scan_string [] = None"
| "scan_string (c # cs) =
     (if c = dq then Some ([], cs)
      else if c = CHR 0x5C then
        (case cs of
           [] \<Rightarrow> None
         | e # es \<Rightarrow>
             if e = CHR ''u'' then
               (case hex4 es of
                  None \<Rightarrow> None
                | Some n \<Rightarrow>
                    (case scan_string (drop 4 es) of
                       None \<Rightarrow> None
                     | Some (t, rest) \<Rightarrow> Some (code_point_char n # t, rest)))
             else
               (case escape_char e of
                  None \<Rightarrow> None
                | Some x \<Rightarrow>
                    (case scan_string es of
                       None \<Rightarrow> None
                     | Some (t, rest) \<Rightarrow> Some (x # t, rest))))
      else if (of_char c :: nat) < 32 then None
      else (case scan_string cs of None \<Rightarrow> None | Some (t, rest) \<Rightarrow> Some (c # t, rest)))"

definition scan_int_part :: "string \<Rightarrow> (string \<times> string) option" where
  "scan_int_part s =
     (case s of
        [] \<Rightarrow> None
      | c # cs \<Rightarrow>
          if c = CHR ''0'' then Some ([c], cs)
          else if is_digit c then Some (takeWhile is_digit s, dropWhile is_digit s)
          else None)"

definition scan_frac :: "string \<Rightarrow> string \<times> string" where
  "scan_frac s =
     (case s of
        c # d # ds \<Rightarrow>
          if c = CHR ''.'' \<and> is_digit d then (c # takeWhile is_digit (d # ds), dropWhile is_digit (d # ds))
          else ([], s)
      | _ \<Rightarrow> ([], s))"

definition scan_exp :: "string \<Rightarrow> string \<times> string" where
  "scan_exp s =
     (case s of
        e # cs \<Rightarrow>
          if e = CHR ''e'' \<or> e = CHR ''E'' then
            (case cs of
               g # ds \<Rightarrow>
                 if (g = CHR ''+'' \<or> g = CHR ''-'') \<and> ds \<noteq> [] \<and> is_digit (hd ds)
                 then (e # g # takeWhile is_digit ds, dropWhile is_digit ds)
                 else if is_digit g then (e # takeWhile is_digit cs, dropWhile is_digit cs)
                 else ([], s)
             | [] \<Rightarrow> ([], s))
          else ([], s)
      | [] \<Rightarrow> ([], s))"

definition scan_number :: "string \<Rightarrow> (json \<times> string) option" where
  "scan_number s =
     (let neg = (s \<noteq> [] \<and> hd s = CHR ''-'');
          body = (if neg then tl s else s)
      in case scan_int_part body of
           None \<Rightarrow> None
         | Some (ds, r1) \<Rightarrow>
             (case scan_frac r1 of
                (frac, r2) \<Rightarrow>
                  (case scan_exp r2 of
                     (ex, r3) \<Rightarrow>
                       if frac = [] \<and> ex = []
                       then Some (JInt (if neg then - int (nat_of_digits ds) else int (nat_of_digits ds)), r3)
                       else Some (JFloat ((if neg then ''-'' else '''') @ ds @ frac @ ex), r3))))"

definition scan_literal :: "string \<Rightarrow> (json \<times> string) option" where
  "scan_literal s =
     (if take 4 s = ''null'' then Some (JNull, drop 4 s)
      else if take 4 s = ''true'' then Some (JBool True, drop 4 s)
      else if take 5 s = ''false'' then Some (JBool False, drop 5 s)
      else (case scan_number s of
              Some x \<Rightarrow> Some x
            | None \<Rightarrow>
                if take 3 s = ''NaN'' then Some (JFloat ''NaN'', drop 3 s)
                else if take 8 s = ''Infinity'' then Some (JFloat ''Infinity'', drop 8 s)
                else if take 9 s = ''-Infinity'' then Some (JFloat ''-Infinity'', drop 9 s)
                else None))"

text \<open>
  The recursive descent, on a counter that bounds the recursion as the interpreter's
  recursion limit does: a value, the elements of a non-empty array after its bracket, the
  members of a non-empty object after its brace. A repeated key keeps its first place and
  takes the last value.
\<close>

fun parse_value :: "nat \<Rightarrow> string \<Rightarrow> (json \<times> string) option"
  and parse_elements :: "nat \<Rightarrow> string \<Rightarrow> json list \<Rightarrow> (json list \<times> string) option"
  and parse_members :: "nat \<Rightarrow> string \<Rightarrow> (string \<times> json) list \<Rightarrow> ((string \<times> json) list \<times> string) option"
where
  "parse_value 0 s = None"
| "parse_value (Suc n) s =
     (case s of
        [] \<Rightarrow> None
      | c # cs \<Rightarrow>
          if c = dq then (case scan_string cs of None \<Rightarrow> None | Some (t, r) \<Rightarrow> Some (JStr t, r))
          else if c = CHR 0x7B then
            (case skip_ws cs of
               [] \<Rightarrow> None
             | d # ds \<Rightarrow>
                 if d = CHR 0x7D then Some (JObj [], ds)
                 else (case parse_members n (d # ds) [] of None \<Rightarrow> None | Some (m, r) \<Rightarrow> Some (JObj m, r)))
          else if c = CHR 0x5B then
            (case skip_ws cs of
               [] \<Rightarrow> None
             | d # ds \<Rightarrow>
                 if d = CHR 0x5D then Some (JArr [], ds)
                 else (case parse_elements n (d # ds) [] of None \<Rightarrow> None | Some (xs, r) \<Rightarrow> Some (JArr xs, r)))
          else scan_literal s)"
| "parse_elements 0 s acc = None"
| "parse_elements (Suc n) s acc =
     (case parse_value n s of
        None \<Rightarrow> None
      | Some (v, r) \<Rightarrow>
          (case skip_ws r of
             [] \<Rightarrow> None
           | c # cs \<Rightarrow>
               if c = CHR 0x5D then Some (acc @ [v], cs)
               else if c = CHR '','' then parse_elements n (skip_ws cs) (acc @ [v])
               else None))"
| "parse_members 0 s acc = None"
| "parse_members (Suc n) s acc =
     (case s of
        [] \<Rightarrow> None
      | q # cs \<Rightarrow>
          if q \<noteq> dq then None
          else
            (case scan_string cs of
               None \<Rightarrow> None
             | Some (k, r) \<Rightarrow>
                 (case skip_ws r of
                    [] \<Rightarrow> None
                  | c # r2 \<Rightarrow>
                      if c \<noteq> CHR '':'' then None
                      else
                        (case parse_value n (skip_ws r2) of
                           None \<Rightarrow> None
                         | Some (v, r3) \<Rightarrow>
                             (case skip_ws r3 of
                                [] \<Rightarrow> None
                              | d # r4 \<Rightarrow>
                                  if d = CHR 0x7D then Some (dict_set acc k v, r4)
                                  else if d = CHR '','' then parse_members n (skip_ws r4) (dict_set acc k v)
                                  else None)))))"

text \<open>
  \<open>json.loads(s)\<close>: one value between optional whitespace, nothing after it. The counter
  starts above twice the length of the text, more calls than a parse of it can nest.
\<close>

definition json_decode :: "string \<Rightarrow> json option" where
  "json_decode s =
     (case parse_value (2 * length s + 2) (skip_ws s) of
        None \<Rightarrow> None
      | Some (v, r) \<Rightarrow> if skip_ws r = [] then Some v else None)"

text \<open>
  A concrete \<open>int(float(p))\<close> for plain decimal notation: an optional sign, digits and an
  optional fraction, truncated towards zero; any other text is a \<open>ValueError\<close>. Exponents,
  \<open>inf\<close>, \<open>nan\<close>, digit separators and the binary rounding of long literals are not covered.
\<close>

definition decimal_int_float :: "string \<Rightarrow> py_error + int" where
  "decimal_int_float p =
     (let s = strip p;
          neg = (s \<noteq> [] \<and> hd s = CHR ''-'');
          body = (if s \<noteq> [] \<and> (hd s = CHR ''-'' \<or> hd s = CHR ''+'') then tl s else s);
          whole = takeWhile is_digit body;
          rest = dropWhile is_digit body;
          frac = (if rest \<noteq> [] \<and> hd rest = CHR ''.'' then tl rest else [])
      in if (rest = [] \<and> whole \<noteq> [])
            \<or> (rest \<noteq> [] \<and> hd rest = CHR ''.'' \<and> list_all is_digit frac \<and> (whole \<noteq> [] \<or> frac \<noteq> []))
         then Inr (if neg then - int (nat_of_digits whole) else int (nat_of_digits whole))
         else Inl ValueError)"

text \<open>
  \<open>str\<close> and \<open>bool\<close> of a decoded value: exact on \<open>None\<close>, booleans, integers and strings; a
  float is shown by its literal and a container by a placeholder.
\<close>

definition scalar_text :: "json \<Rightarrow> string" where
  "scalar_text v =
     (case v of
        JNull \<Rightarrow> ''None''
      | JBool b \<Rightarrow> if b then ''True'' else ''False''
      | JInt i \<Rightarrow> str_int i
      | JFloat l \<Rightarrow> l
      | JStr s \<Rightarrow> s
      | JArr xs \<Rightarrow> ''[...]''
      | JObj kvs \<Rightarrow> ''{...}'')"

definition scalar_truth :: "json \<Rightarrow> bool" where
  "scalar_truth v =
     (case v of
        JNull \<Rightarrow> False
      | JBool b \<Rightarrow> b
      | JInt i \<Rightarrow> i \<noteq> 0
      | JFloat l \<Rightarrow> \<not> list_all (\<lambda>c. \<not> is_digit c \<or> c = CHR ''0'') (takeWhile (\<lambda>c. c \<noteq> CHR ''e'' \<and> c \<noteq> CHR ''E'') l)
      | JStr s \<Rightarrow> s \<noteq> []
      | JArr xs \<Rightarrow> xs \<noteq> []
      | JObj kvs \<Rightarrow> kvs \<noteq> [])"

text \<open>The concrete runtime the examples are evaluated with.\<close>

definition python :: builtins where
  "python = \<lparr>json_loads = json_decode, int_float = decimal_int_float,
             str_value = scalar_text, truth_value = scalar_truth\<rparr>"

subsection \<open>Example records\<close>

text \<open>
  Example records: the record of the specification's example, one with a port token that
  is not a number, one with an empty \<open>base_image\<close> cell, one whose JSON fields do not decode,
  and the last one without those fields.
\<close>

definition good_row :: row where
  "good_row = [(''app_name'', ''svc1''), (''base_image'', ''python:3.11-slim''), (''workdir'', ''/app''),
     (''run_commands'', ''pip install -r requirements.txt; python -m compileall .''),
     (''expose_ports'', ''8000''), (''cmd'', ''python app.py'')]"

definition bad_port_row :: row where
  "bad_port_row = [(''app_name'', ''svc2''), (''base_image'', ''alpine''), (''expose_ports'', ''80;http'')]"

definition empty_image_row :: row where
  "empty_image_row = [(''app_name'', ''svc3''), (''base_image'', '''')]"

definition fallback_row :: row where
  "fallback_row = [(''app_name'', ''svc4''), (''base_image'', ''alpine''), (''add_files'', ''not valid json''),
     (''copy_pairs'', ''not valid json''), (''shell'', ''/bin/bash -c'')]"

definition plain_row :: row where
  "plain_row = [(''app_name'', ''svc4''), (''base_image'', ''alpine'')]"

text \<open>Two records of one application; the \<open>base_image\<close> cell of the first ends with a line feed.\<close>

definition trailing_feed_row :: row where
  "trailing_feed_row = [(''app_name'', ''svc5''), (''base_image'', ''golang'' @ [nl])]"

definition second_stage_row :: row where
  "second_stage_row = [(''app_name'', ''svc5''), (''base_image'', ''alpine'')]"

definition fallback_stage :: DockerfileStage where
  "fallback_stage = (stage_defaults None ''alpine'')\<lparr>shell := Some [''/bin/bash'', ''-c'']\<rparr>"

definition good_stage :: DockerfileStage where
  "good_stage = (stage_defaults None ''python:3.11-slim'')
     \<lparr>workdir := Some ''/app'',
      run_commands := [''pip install -r requirements.txt'', ''python -m compileall .''],
      expose_ports := [8000], cmd := Some [''python'', ''app.py'']\<rparr>"

text \<open>The number of stages of a loaded configuration, and its (application, stage) pairs.\<close>

definition stage_count :: "(string \<times> DockerfileStage list) list \<Rightarrow> nat" where
  "stage_count app_configs = sum_list (map (\<lambda>(app_name, stages). length stages) app_configs)"

definition stage_pairs :: "(string \<times> DockerfileStage list) list \<Rightarrow> (string \<times> DockerfileStage) list" where
  "stage_pairs app_configs = concat (map (\<lambda>(app_name, stages). map (Pair app_name) stages) app_configs)"

section \<open>Artifact store\<close>

text \<open>
  The tree under \<open>OUTPUT_DIR\<close>. A file carries whether the service can read it (\<open>open\<close>
  raises otherwise) and its text, whose length is its size in bytes. A directory carries
  its modification time, the datetime \<open>datetime.fromtimestamp(os.path.getmtime(\<cdot>))\<close>, and
  its entries in listing order. \<open>OUTPUT_DIR\<close> is \<open>None\<close> when it does not exist. Symbolic
  links, and directories that cannot be listed or removed, are not modelled.

  A datetime is counted in microseconds from \<open>datetime.min\<close>, the first instant of the year
  1; \<open>datetime.max\<close> is the last microsecond of the year 9999. Two operations of an
  endpoint raise here: reading a Dockerfile, which the source catches on the spot, and the
  cutoff \<open>datetime.now() - timedelta(days=days)\<close>, whose \<open>OverflowError\<close> reaches the
  endpoint's \<open>except Exception\<close> clause and is answered with \<open>HTTPException(500)\<close>: the reply
  is then \<open>Inl\<close> of the error.
\<close>

datatype node = File bool string | Dir int "(string \<times> node) list"

type_synonym directory = "(string \<times> node) list"

text \<open>\<open>item.startswith('.')\<close>\<close>

definition startswith_dot :: "string \<Rightarrow> bool" where
  "startswith_dot item = (item \<noteq> [] \<and> hd item = CHR ''.'')"

text \<open>\<open>open(path, 'r').read()\<close>: \<open>None\<close> when it raises (an unreadable file, or a directory).\<close>

definition read_text :: "node \<Rightarrow> string option" where
  "read_text f = (case f of File readable content \<Rightarrow> if readable then Some content else None | Dir m es \<Rightarrow> None)"

text \<open>
  \<open>get_directory_size\<close>: the sizes of all files \<open>os.walk\<close> reaches under a directory (for a
  file, its own size).
\<close>

fun get_directory_size :: "node \<Rightarrow> int" where
  "get_directory_size (File readable content) = int (length content)"
| "get_directory_size (Dir m es) = sum_list (map (\<lambda>(n, x). get_directory_size x) es)"

text \<open>
  \<open>s.upper()\<close> as far as the search for \<open>FROM\<close> can tell, and \<open>needle in s\<close>. The ASCII
  letters are raised; a character from 0x80 on is left in place, where Python puts one or
  two characters that are none of \<open>F\<close>, \<open>R\<close>, \<open>O\<close>, \<open>M\<close> and the space.
\<close>

definition upper :: "string \<Rightarrow> string" where
  "upper s = map (\<lambda>c. if 97 \<le> (of_char c :: nat) \<and> (of_char c :: nat) \<le> 122 then char_of ((of_char c :: nat) - 32) else c) s"

fun contains_sub :: "string \<Rightarrow> string \<Rightarrow> bool" where
  "contains_sub needle [] = (needle = [])"
| "contains_sub needle (c # cs) = (take (length needle) (c # cs) = needle \<or> contains_sub needle cs)"

text \<open>
  \<open>round(size / (1024 * 1024), 2)\<close>, counted in hundredths of a megabyte. For a size below
  \<open>2^53\<close> the division by \<open>2^20\<close> is exact in binary64, and \<open>round\<close> rounds the exact
  quotient to two decimals, ties to even; the float it returns is the one nearest to that
  decimal.
\<close>

definition round_half_even :: "int \<Rightarrow> int \<Rightarrow> int" where
  "round_half_even n d =
     (let q = n div d; r = n mod d
      in if 2 * r < d then q else if d < 2 * r then q + 1 else if even q then q else q + 1)"

definition size_mb_of :: "int \<Rightarrow> int" where
  "size_mb_of n = round_half_even (n * 100) (1024 * 1024)"

definition datetime_max :: int where
  "datetime_max = 315537897599999999"

text \<open>\<open>timedelta(days=days)\<close> in microseconds: at most 999999999 days either way.\<close>

definition timedelta_days :: "int \<Rightarrow> py_error + int" where
  "timedelta_days days =
     (if - 999999999 \<le> days \<and> days \<le> 999999999 then Inr (days * 86400000000) else Inl OverflowError)"

text \<open>\<open>dt - delta\<close>: the result has to be a datetime.\<close>

definition datetime_minus :: "int \<Rightarrow> int \<Rightarrow> py_error + int" where
  "datetime_minus dt delta =
     (if 0 \<le> dt - delta \<and> dt - delta \<le> datetime_max then Inr (dt - delta) else Inl OverflowError)"

text \<open>\<open>datetime.now() - timedelta(days=days)\<close>\<close>

definition cutoff_of :: "int \<Rightarrow> int \<Rightarrow> py_error + int" where
  "cutoff_of now days =
     (case timedelta_days days of Inl e \<Rightarrow> Inl e | Inr delta \<Rightarrow> datetime_minus now delta)"

text \<open>\<open>shutil.rmtree(item_path)\<close> on the listing of \<open>OUTPUT_DIR\<close>.\<close>

definition rmtree :: "string \<Rightarrow> directory \<Rightarrow> directory" where
  "rmtree item fs = filter (\<lambda>(n, x). n \<noteq> item) fs"

text \<open>
  The loop the three cleanup endpoints share: \<open>for item in os.listdir(OUTPUT_DIR)\<close> over
  the names listed at the start; \<open>os.path.isdir(item_path)\<close> and the hidden-name test on the
  tree as it is then; the endpoint's own decision \<open>decide\<close>, which returns the entry to
  append to \<open>deleted_apps\<close>; \<open>shutil.rmtree\<close> and the append.
\<close>

fun cleanup_loop :: "(string \<Rightarrow> node \<Rightarrow> 'r option) \<Rightarrow> string list \<Rightarrow> directory \<Rightarrow> 'r list \<Rightarrow> directory \<times> 'r list" where
  "cleanup_loop decide [] fs deleted_apps = (fs, deleted_apps)"
| "cleanup_loop decide (item # items) fs deleted_apps =
     (case map_of fs item of
        Some (Dir m es) \<Rightarrow>
          if \<not> startswith_dot item then
            (case decide item (Dir m es) of
               Some entry \<Rightarrow> cleanup_loop decide items (rmtree item fs) (deleted_apps @ [entry])
             | None \<Rightarrow> cleanup_loop decide items fs deleted_apps)
          else cleanup_loop decide items fs deleted_apps
      | _ \<Rightarrow> cleanup_loop decide items fs deleted_apps)"

text \<open>
  \<open>cleanup_old_files\<close>. \<open>now\<close> is \<open>datetime.now()\<close>; \<open>last_modified\<close> holds the time whose ISO
  text the source reports. The decision also returns the byte size, which the loop adds to
  \<open>total_size_freed\<close>. The endpoint returns its reply and the tree it leaves; the cutoff is
  computed before the loop, so an endpoint that fails there has deleted nothing.
\<close>

record old_app =
  name :: string
  last_modified :: int
  size_mb :: int

record cleanup_old_response =
  message :: string
  deleted_apps :: "old_app list"
  total_size_freed_mb :: "int option"

definition decide_old :: "int \<Rightarrow> string \<Rightarrow> node \<Rightarrow> (old_app \<times> int) option" where
  "decide_old cutoff_time item node =
     (case node of
        Dir mod_time es \<Rightarrow>
          if mod_time < cutoff_time then
            (let sz = get_directory_size node
             in Some (\<lparr>old_app.name = item, old_app.last_modified = mod_time, old_app.size_mb = size_mb_of sz\<rparr>, sz))
          else None
      | File readable content \<Rightarrow> None)"

definition cleanup_old_files ::
  "int \<Rightarrow> int \<Rightarrow> directory option \<Rightarrow> (py_error + cleanup_old_response) \<times> directory option" where
  "cleanup_old_files now days out =
     (case out of
        None \<Rightarrow>
          (Inr \<lparr>cleanup_old_response.message = ''Output directory doesn't exist'',
                cleanup_old_response.deleted_apps = [], total_size_freed_mb = None\<rparr>, None)
      | Some fs \<Rightarrow>
          (case cutoff_of now days of
             Inl e \<Rightarrow> (Inl e, Some fs)
           | Inr cutoff_time \<Rightarrow>
               (case cleanup_loop (decide_old cutoff_time) (map fst fs) fs [] of
                  (fs', deleted) \<Rightarrow>
                    (Inr \<lparr>cleanup_old_response.message =
                            ''Cleaned up '' @ str_int (int (length deleted)) @ '' apps older than ''
                              @ str_int days @ '' days'',
                          cleanup_old_response.deleted_apps = map fst deleted,
                          total_size_freed_mb = Some (size_mb_of (sum_list (map snd deleted)))\<rparr>,
                     Some fs'))))"

text \<open>\<open>[f for f in os.listdir(item_path) if not f.startswith('.')]\<close>\<close>

definition visible_contents :: "node \<Rightarrow> string list" where
  "visible_contents node =
     (case node of Dir m es \<Rightarrow> filter (\<lambda>f. \<not> startswith_dot f) (map fst es) | File readable content \<Rightarrow> [])"

text \<open>\<open>cleanup_empty_directories\<close>\<close>

record cleanup_empty_response =
  message :: string
  deleted_apps :: "string list"

definition decide_empty :: "string \<Rightarrow> node \<Rightarrow> string option" where
  "decide_empty item node = (if length (visible_contents node) = 0 then Some item else None)"

definition cleanup_empty_directories :: "directory option \<Rightarrow> cleanup_empty_response \<times> directory option" where
  "cleanup_empty_directories out =
     (case out of
        None \<Rightarrow>
          (\<lparr>cleanup_empty_response.message = ''Output directory doesn't exist'',
            cleanup_empty_response.deleted_apps = []\<rparr>, None)
      | Some fs \<Rightarrow>
          (case cleanup_loop decide_empty (map fst fs) fs [] of
             (fs', deleted) \<Rightarrow>
               (\<lparr>cleanup_empty_response.message =
                   ''Cleaned up '' @ str_int (int (length deleted)) @ '' empty directories'',
                 cleanup_empty_response.deleted_apps = deleted\<rparr>,
                Some fs')))"

text \<open>
  \<open>cleanup_invalid_apps\<close>. The text of the caught exception, which the source appends to
  the reason \<open>Error reading Dockerfile\<close>, is left out.
\<close>

record invalid_app =
  name :: string
  reason :: string

record cleanup_invalid_response =
  message :: string
  deleted_apps :: "invalid_app list"

text \<open>\<open>os.path.join(item_path, "Dockerfile")\<close>, when \<open>os.path.exists\<close> says it is there.\<close>

definition dockerfile_of :: "node \<Rightarrow> node option" where
  "dockerfile_of node = (case node of Dir m es \<Rightarrow> map_of es ''Dockerfile'' | File readable content \<Rightarrow> None)"

definition decide_invalid :: "string \<Rightarrow> node \<Rightarrow> invalid_app option" where
  "decide_invalid item node =
     (case dockerfile_of node of
        None \<Rightarrow> Some \<lparr>invalid_app.name = item, reason = ''No Dockerfile found''\<rparr>
      | Some dockerfile \<Rightarrow>
          (case read_text dockerfile of
             None \<Rightarrow> Some \<lparr>invalid_app.name = item, reason = ''Error reading Dockerfile''\<rparr>
           | Some text \<Rightarrow>
               (let content = strip text
                in if content = [] then Some \<lparr>invalid_app.name = item, reason = ''Empty Dockerfile''\<rparr>
                   else if \<not> contains_sub ''FROM '' (upper content)
                   then Some \<lparr>invalid_app.name = item, reason = ''No FROM instruction in Dockerfile''\<rparr>
                   else None)))"

definition cleanup_invalid_apps :: "directory option \<Rightarrow> cleanup_invalid_response \<times> directory option" where
  "cleanup_invalid_apps out =
     (case out of
        None \<Rightarrow>
          (\<lparr>cleanup_invalid_response.message = ''Output directory doesn't exist'',
            cleanup_invalid_response.deleted_apps = []\<rparr>, None)
      | Some fs \<Rightarrow>
          (case cleanup_loop decide_invalid (map fst fs) fs [] of
             (fs', deleted) \<Rightarrow>
               (\<lparr>cleanup_invalid_response.message =
                   ''Cleaned up '' @ str_int (int (length deleted)) @ '' invalid app directories'',
                 cleanup_invalid_response.deleted_apps = deleted\<rparr>,
                Some fs')))"

text \<open>
  \<open>preview_cleanup\<close>: the three checks of the loop body, each appending its reason, and
  the entry built for one application directory. \<open>will_be_deleted\<close> is set exactly where a
  reason is appended. The age check computes the cutoff anew for every directory.
\<close>

record preview_app =
  name :: string
  path :: string
  last_modified :: int
  size_mb :: int
  will_be_deleted :: bool
  reasons :: "string list"

record preview_response =
  total_apps :: nat
  apps_to_delete :: nat
  total_size_to_free_mb :: int
  apps :: "preview_app list"

definition preview_age_reasons :: "int \<Rightarrow> int option \<Rightarrow> int \<Rightarrow> py_error + string list" where
  "preview_age_reasons now days mod_time =
     (case days of
        Some d \<Rightarrow>
          (case cutoff_of now d of
             Inl e \<Rightarrow> Inl e
           | Inr cutoff_time \<Rightarrow>
               Inr (if mod_time < cutoff_time then [''Older than '' @ str_int d @ '' days''] else []))
      | None \<Rightarrow> Inr [])"

definition preview_empty_reasons :: "bool \<Rightarrow> node \<Rightarrow> string list" where
  "preview_empty_reasons show_empty node =
     (if show_empty then (if length (visible_contents node) = 0 then [''Empty directory''] else []) else [])"

definition preview_invalid_reasons :: "bool \<Rightarrow> node \<Rightarrow> string list" where
  "preview_invalid_reasons show_invalid node =
     (if show_invalid then
        (case dockerfile_of node of
           None \<Rightarrow> [''No Dockerfile found'']
         | Some dockerfile \<Rightarrow>
             (case read_text dockerfile of
                None \<Rightarrow> [''Error reading Dockerfile'']
              | Some text \<Rightarrow>
                  (let content = strip text
                   in if content = [] then [''Empty Dockerfile'']
                      else if \<not> contains_sub ''FROM '' (upper content) then [''No FROM instruction in Dockerfile'']
                      else [])))
      else [])"

definition preview_app_info ::
  "int \<Rightarrow> int option \<Rightarrow> bool \<Rightarrow> bool \<Rightarrow> string \<Rightarrow> node \<Rightarrow> py_error + preview_app" where
  "preview_app_info now days show_empty show_invalid item node =
     (let mod_time = (case node of Dir m es \<Rightarrow> m | File readable content \<Rightarrow> 0)
      in case preview_age_reasons now days mod_time of
           Inl e \<Rightarrow> Inl e
         | Inr age \<Rightarrow>
             (let rs = age @ preview_empty_reasons show_empty node @ preview_invalid_reasons show_invalid node
              in Inr \<lparr>preview_app.name = item, path = ''output/'' @ item,
                      preview_app.last_modified = mod_time,
                      preview_app.size_mb = size_mb_of (get_directory_size node),
                      will_be_deleted = (rs \<noteq> []), reasons = rs\<rparr>))"

text \<open>The entries a loop works on: directories whose name does not start with a dot.\<close>

definition is_app_dir :: "string \<times> node \<Rightarrow> bool" where
  "is_app_dir e = (case e of (item, Dir m es) \<Rightarrow> \<not> startswith_dot item | (item, File readable content) \<Rightarrow> False)"

text \<open>
  The loop of \<open>preview_cleanup\<close> over the listing, with \<open>preview_apps\<close> and \<open>total_size\<close> as it
  goes; the first entry that raises ends it.
\<close>

fun preview_loop ::
  "int \<Rightarrow> int option \<Rightarrow> bool \<Rightarrow> bool \<Rightarrow> directory \<Rightarrow> preview_app list \<Rightarrow> int
     \<Rightarrow> py_error + (preview_app list \<times> int)" where
  "preview_loop now days show_empty show_invalid [] preview_apps total_size = Inr (preview_apps, total_size)"
| "preview_loop now days show_empty show_invalid ((item, node) # rest) preview_apps total_size =
     (if is_app_dir (item, node) then
        (case preview_app_info now days show_empty show_invalid item node of
           Inl e \<Rightarrow> Inl e
         | Inr app_info \<Rightarrow>
             preview_loop now days show_empty show_invalid rest (preview_apps @ [app_info])
               (if will_be_deleted app_info then total_size + get_directory_size node else total_size))
      else preview_loop now days show_empty show_invalid rest preview_apps total_size)"

text \<open>
  The reply of \<open>preview_cleanup\<close>: the message alone when \<open>OUTPUT_DIR\<close> does not exist.
\<close>

definition preview_cleanup ::
  "int \<Rightarrow> int option \<Rightarrow> bool \<Rightarrow> bool \<Rightarrow> directory option \<Rightarrow> py_error + (string + preview_response)" where
  "preview_cleanup now days show_empty show_invalid out =
     (case out of
        None \<Rightarrow> Inr (Inl ''Output directory doesn't exist'')
      | Some fs \<Rightarrow>
          (case preview_loop now days show_empty show_invalid fs [] 0 of
             Inl e \<Rightarrow> Inl e
           | Inr (preview_apps, total_size) \<Rightarrow>
               Inr (Inr \<lparr>total_apps = length preview_apps,
                         apps_to_delete = length (filter will_be_deleted preview_apps),
                         total_size_to_free_mb = size_mb_of total_size,
                         apps = preview_apps\<rparr>)))"

text \<open>
  \<open>get_storage_summary\<close>. The keys that the reply for a missing \<open>OUTPUT_DIR\<close> does not have
  are grouped in \<open>counts\<close>.
\<close>

record summary_app =
  name :: string
  size_mb :: int
  has_dockerfile :: bool
  is_empty :: bool
  is_invalid :: bool
  last_modified :: int
  file_count :: nat

record summary_counts =
  valid_apps :: nat
  empty_directories :: nat
  invalid_apps :: nat
  can_cleanup_empty :: bool
  can_cleanup_invalid :: bool
  total_cleanable_items :: nat

record storage_summary =
  output_directory_exists :: bool
  total_apps :: nat
  total_size_mb :: int
  counts :: "summary_counts option"
  apps :: "summary_app list"

text \<open>The \<open>is_invalid\<close> flag of the summary loop.\<close>

definition summary_is_invalid :: "node \<Rightarrow> bool" where
  "summary_is_invalid node =
     (case dockerfile_of node of
        None \<Rightarrow> True
      | Some dockerfile \<Rightarrow>
          (case read_text dockerfile of
             None \<Rightarrow> True
           | Some text \<Rightarrow>
               (let content = strip text
                in if content = [] \<or> \<not> contains_sub ''FROM '' (upper content) then True else False)))"

definition summary_app_info :: "string \<Rightarrow> node \<Rightarrow> summary_app" where
  "summary_app_info item node =
     (let contents = visible_contents node
      in \<lparr>summary_app.name = item,
          summary_app.size_mb = size_mb_of (get_directory_size node),
          has_dockerfile = (dockerfile_of node \<noteq> None),
          is_empty = (length contents = 0),
          is_invalid = summary_is_invalid node,
          summary_app.last_modified = (case node of Dir m es \<Rightarrow> m | File readable content \<Rightarrow> 0),
          file_count = length contents\<rparr>)"

text \<open>
  \<open>sorted(apps, key=lambda x: x["last_modified"], reverse=True)\<close>: a stable sort, newest
  first; the ISO texts the source compares order as the times do.
\<close>

definition sorted_newest_first :: "summary_app list \<Rightarrow> summary_app list" where
  "sorted_newest_first xs = rev (sort_key summary_app.last_modified (rev xs))"

definition get_storage_summary :: "directory option \<Rightarrow> storage_summary" where
  "get_storage_summary out =
     (case out of
        None \<Rightarrow>
          \<lparr>output_directory_exists = False, storage_summary.total_apps = 0, total_size_mb = 0,
            counts = None, storage_summary.apps = []\<rparr>
      | Some fs \<Rightarrow>
          (let listed = filter is_app_dir fs;
               found = map (\<lambda>(item, node). summary_app_info item node) listed;
               total_size = sum_list (map (\<lambda>(item, node). get_directory_size node) listed);
               dockerfile_count = length (filter (\<lambda>a. has_dockerfile a \<and> \<not> is_invalid a) found);
               empty_dirs = length (filter is_empty found);
               invalid_count = length (filter is_invalid found)
           in \<lparr>output_directory_exists = True,
                storage_summary.total_apps = length found,
                total_size_mb = size_mb_of total_size,
                counts = Some \<lparr>valid_apps = dockerfile_count, empty_directories = empty_dirs,
                                invalid_apps = invalid_count,
                                can_cleanup_empty = (0 < empty_dirs),
                                can_cleanup_invalid = (0 < invalid_count),
                                total_cleanable_items = empty_dirs + invalid_count\<rparr>,
                storage_summary.apps = sorted_newest_first found\<rparr>))"

text \<open>
  The classification, in the words of the specification: the text of an application's
  Dockerfile when it is there and can be read, a Dockerfile that is there and cannot be
  read, a text that names \<open>FROM\<close> somewhere in some letter case, and a text with a \<open>FROM\<close>
  instruction: a line that, after leading whitespace, holds the keyword in some letter case,
  a space and an image name.
\<close>

definition dockerfile_text :: "node \<Rightarrow> string option" where
  "dockerfile_text node = (case dockerfile_of node of Some f \<Rightarrow> read_text f | None \<Rightarrow> None)"

definition dockerfile_unreadable :: "node \<Rightarrow> bool" where
  "dockerfile_unreadable node = (case dockerfile_of node of Some f \<Rightarrow> read_text f = None | None \<Rightarrow> False)"

definition mentions_from :: "string \<Rightarrow> bool" where
  "mentions_from t = contains_sub ''FROM'' (upper t)"

definition from_instruction_line :: "string \<Rightarrow> bool" where
  "from_instruction_line l = (let u = upper (lstrip l) in take 5 u = ''FROM '' \<and> strip (drop 5 u) \<noteq> [])"

definition has_from_instruction :: "string \<Rightarrow> bool" where
  "has_from_instruction t = list_ex from_instruction_line (split_on nl t)"

text \<open>
  Notions the properties are stated with: the entry a cleanup appends for a listed
  entry, a directory last modified before a cutoff, the modification time of a node, the
  names a preview marks and the names a cleanup-by-age reports (none when the reply is an
  error), a tree whose listing has no name twice, and a tree without some names.
\<close>

definition deleted_entry :: "(string \<Rightarrow> node \<Rightarrow> 'r option) \<Rightarrow> string \<times> node \<Rightarrow> 'r option" where
  "deleted_entry decide e = (if is_app_dir e then decide (fst e) (snd e) else None)"

definition stale :: "int \<Rightarrow> string \<times> node \<Rightarrow> bool" where
  "stale cutoff_time e =
     (case e of (item, Dir m es) \<Rightarrow> m < cutoff_time | (item, File readable content) \<Rightarrow> False)"

definition mtime :: "node \<Rightarrow> int" where
  "mtime node = (case node of Dir m es \<Rightarrow> m | File readable content \<Rightarrow> 0)"

definition marked_for_deletion :: "py_error + (string + preview_response) \<Rightarrow> string list" where
  "marked_for_deletion reply =
     (case reply of
        Inl e \<Rightarrow> []
      | Inr (Inl msg) \<Rightarrow> []
      | Inr (Inr r) \<Rightarrow> map preview_app.name (filter will_be_deleted (preview_response.apps r)))"

definition deleted_by_age :: "py_error + cleanup_old_response \<Rightarrow> string list" where
  "deleted_by_age reply =
     (case reply of
        Inl e \<Rightarrow> []
      | Inr r \<Rightarrow> map old_app.name (cleanup_old_response.deleted_apps r))"

definition well_formed :: "directory option \<Rightarrow> bool" where
  "well_formed out = (case out of None \<Rightarrow> True | Some fs \<Rightarrow> distinct (map fst fs))"

definition without :: "string list \<Rightarrow> directory option \<Rightarrow> directory option" where
  "without names out = map_option (filter (\<lambda>(n, x). n \<notin> set names)) out"

subsection \<open>Example trees\<close>

text \<open>Example trees; \<open>day n\<close> is the datetime \<open>n\<close> days after \<open>datetime.min\<close>.\<close>

definition day :: "int \<Rightarrow> int" where
  "day n = n * 86400000000"


definition mixed_output :: "directory option" where
  "mixed_output = Some
     [(''old'', Dir (day 10) [(''Dockerfile'', File True ''FROM alpine'')]),
      (''blank'', Dir (day 19) [(''Dockerfile'', File True '''')]),
      (''hollow'', Dir (day 18) [(''.keep'', File True '''')]),
      (''new'', Dir (day 17) [(''Dockerfile'', File True ''from alpine''), (''app.py'', File True ''print(1)'')]),
      (''.cache'', Dir (day 1) []),
      (''notes.txt'', File True ''x'')]"

definition blank_output :: "directory option" where
  "blank_output = Some
     [(''blank'', Dir (day 19) [(''Dockerfile'', File True '''')]),
      (''new'', Dir (day 17) [(''Dockerfile'', File True ''FROM alpine'')])]"

definition locked_app :: node where
  "locked_app = Dir (day 19) [(''Dockerfile'', File False ''FROM alpine'')]"

section \<open>Properties of the compiler\<close>

lemma foldl_append_line: "foldl (\<lambda>ls x. ls @ [f x]) ls xs = ls @ map f xs"
  by (induction xs arbitrary: ls) simp_all

lemma foldl_append_pair:
  "foldl (\<lambda>ls (k, v). ls @ [f k v]) ls xs = ls @ map (\<lambda>(k, v). f k v) xs"
  by (induction xs arbitrary: ls) (simp_all add: case_prod_beta)

lemma emit_from_eq: "emit_from s ls = ls @ from_directive s"
  by (simp add: emit_from_def from_directive_def split: option.split)

lemma emit_maintainer_eq: "emit_maintainer s ls = ls @ optional_directive ''MAINTAINER'' (maintainer s)"
  by (simp add: emit_maintainer_def optional_directive_def split: option.split)

lemma emit_label_eq:
  "emit_label s ls = ls @ map (\<lambda>(k, v). ''LABEL '' @ k @ ''='' @ [dq] @ v @ [dq]) (label_pairs s)"
  unfolding emit_label_def by (rule foldl_append_pair)

lemma emit_arg_eq: "emit_arg s ls = ls @ map (\<lambda>(k, v). ''ARG '' @ k @ ''='' @ v) (args s)"
  unfolding emit_arg_def by (rule foldl_append_pair)

lemma emit_env_eq: "emit_env s ls = ls @ map (\<lambda>(k, v). ''ENV '' @ k @ ''='' @ v) (env_vars s)"
  unfolding emit_env_def by (rule foldl_append_pair)

lemma emit_workdir_eq: "emit_workdir s ls = ls @ optional_directive ''WORKDIR'' (workdir s)"
  by (simp add: emit_workdir_def optional_directive_def split: option.split)

lemma emit_add_eq: "emit_add s ls = ls @ map add_to_docker (add s)"
  unfolding emit_add_def by (rule foldl_append_line)

lemma emit_copy_eq: "emit_copy s ls = ls @ map copy_to_docker (copy s)"
  unfolding emit_copy_def by (rule foldl_append_line)

lemma emit_run_eq: "emit_run s ls = ls @ map (\<lambda>c. ''RUN '' @ c) (run_commands s)"
  unfolding emit_run_def by (rule foldl_append_line)

lemma emit_onbuild_eq: "emit_onbuild s ls = ls @ optional_directive ''ONBUILD'' (onbuild_cmd s)"
  by (simp add: emit_onbuild_def optional_directive_def split: option.split)

lemma emit_shell_eq: "emit_shell s ls = ls @ vector_directive ''SHELL'' (shell s)"
  by (simp add: emit_shell_def vector_directive_def split: option.split)

lemma emit_stopsignal_eq: "emit_stopsignal s ls = ls @ optional_directive ''STOPSIGNAL'' (stopsignal s)"
  by (simp add: emit_stopsignal_def optional_directive_def split: option.split)

lemma emit_user_eq: "emit_user s ls = ls @ optional_directive ''USER'' (user s)"
  by (simp add: emit_user_def optional_directive_def split: option.split)

lemma emit_volume_eq:
  "emit_volume s ls = ls @ map (\<lambda>v. ''VOLUME ['' @ [dq] @ v @ [dq] @ '']'') (volume_dirs s)"
  unfolding emit_volume_def by (rule foldl_append_line)

lemma emit_expose_eq: "emit_expose s ls = ls @ map (\<lambda>p. ''EXPOSE '' @ str_int p) (expose_ports s)"
  unfolding emit_expose_def by (rule foldl_append_line)

lemma emit_healthcheck_eq: "emit_healthcheck s ls = ls @ optional_directive ''HEALTHCHECK'' (healthcheck s)"
  by (simp add: emit_healthcheck_def optional_directive_def split: option.split)

lemma emit_entrypoint_eq: "emit_entrypoint s ls = ls @ vector_directive ''ENTRYPOINT'' (entrypoint s)"
  by (simp add: emit_entrypoint_def vector_directive_def split: option.split)

lemma emit_cmd_eq: "emit_cmd s ls = ls @ vector_directive ''CMD'' (cmd s)"
  by (simp add: emit_cmd_def vector_directive_def split: option.split)

lemmas emit_eqs =
  emit_from_eq emit_maintainer_eq emit_label_eq emit_arg_eq emit_env_eq emit_workdir_eq
  emit_add_eq emit_copy_eq emit_run_eq emit_onbuild_eq emit_shell_eq emit_stopsignal_eq
  emit_user_eq emit_volume_eq emit_expose_eq emit_healthcheck_eq emit_entrypoint_eq emit_cmd_eq

lemma render_stage_eq: "render_stage s ls = ls @ stage_block s @ ['''']"
  unfolding render_stage_def Let_def emit_eqs stage_block_def by (simp only: append_assoc)

lemma dockerfile_lines_acc:
  "foldl (\<lambda>lines stage. render_stage stage lines) ls stages
     = ls @ concat (map (\<lambda>s. stage_block s @ ['''']) stages)"
  by (induction stages arbitrary: ls) (simp_all add: render_stage_eq)

lemma dockerfile_lines_eq:
  "dockerfile_lines stages = concat (map (\<lambda>s. stage_block s @ ['''']) stages)"
  by (simp add: dockerfile_lines_def dockerfile_lines_acc)

lemma keyword_prefix: "CHR '' '' \<notin> set k \<Longrightarrow> directive_keyword (k @ CHR '' '' # rest) = k"
  by (simp add: directive_keyword_def takeWhile_append)

lemma kw_optional:
  "CHR '' '' \<notin> set k \<Longrightarrow> map directive_keyword (optional_directive k f) = replicate (present f) k"
  using keyword_prefix[of k] by (simp add: optional_directive_def present_def split: option.split)

lemma kw_vector:
  "CHR '' '' \<notin> set k \<Longrightarrow> map directive_keyword (vector_directive k f) = replicate (present_vector f) k"
  using keyword_prefix[of k] by (simp add: vector_directive_def present_vector_def split: option.split)

lemma kw_from: "map directive_keyword (from_directive s) = [''FROM'']"
  using keyword_prefix[of "''FROM''"] by (simp add: from_directive_def split: option.split)

lemma kw_map_const:
  "(\<And>x. directive_keyword (f x) = k) \<Longrightarrow> map directive_keyword (map f xs) = replicate (length xs) k"
  by (induction xs) simp_all

lemma kw_add: "directive_keyword (add_to_docker a) = ''ADD''"
  using keyword_prefix[of "''ADD''"] by (simp add: add_to_docker_def split: option.split)

lemma kw_copy: "directive_keyword (copy_to_docker a) = ''COPY''"
  using keyword_prefix[of "''COPY''"] by (simp add: copy_to_docker_def split: option.split)

lemma stage_block_keywords: "map directive_keyword (stage_block s) = stage_keywords s"
  unfolding stage_block_def stage_keywords_def map_append
  apply (simp only: kw_from)
  apply (subst kw_optional, simp)+
  apply (subst kw_vector, simp)+
  apply (subst kw_map_const[where k = "''LABEL''"], simp add: directive_keyword_def split: prod.split)
  apply (subst kw_map_const[where k = "''ARG''"], simp add: directive_keyword_def split: prod.split)
  apply (subst kw_map_const[where k = "''ENV''"], simp add: directive_keyword_def split: prod.split)
  apply (subst kw_map_const[where k = "''ADD''"], simp add: kw_add)
  apply (subst kw_map_const[where k = "''COPY''"], simp add: kw_copy)
  apply (subst kw_map_const[where k = "''RUN''"], simp add: directive_keyword_def)
  apply (subst kw_map_const[where k = "''VOLUME''"], simp add: directive_keyword_def)
  apply (subst kw_map_const[where k = "''EXPOSE''"], simp add: directive_keyword_def)
  apply (rule refl)
  done

lemma directive_keyword_empty: "directive_keyword [] = []"
  by (simp add: directive_keyword_def)


lemma join_snoc: "join sep (xs @ [y]) = (if xs = [] then y else join sep xs @ sep @ y)"
  by (induction sep xs rule: join.induct) simp_all

lemma join_append: "xs \<noteq> [] \<Longrightarrow> ys \<noteq> [] \<Longrightarrow> join sep (xs @ ys) = join sep xs @ sep @ join sep ys"
  by (induction sep xs rule: join.induct) (simp_all, cases ys, simp_all)

lemma stage_block_nonempty: "stage_block s \<noteq> []"
  by (simp add: stage_block_def from_directive_def split: option.split)

lemma join_hd: "xs \<noteq> [] \<Longrightarrow> hd xs \<noteq> [] \<Longrightarrow> hd (join sep xs) = hd (hd xs)"
  by (induction sep xs rule: join.induct) simp_all

lemma join_nonempty: "xs \<noteq> [] \<Longrightarrow> hd xs \<noteq> [] \<Longrightarrow> join sep xs \<noteq> []"
  by (induction sep xs rule: join.induct) simp_all

lemma stage_text_starts: "stage_text s \<noteq> [] \<and> hd (stage_text s) = CHR ''F''"
proof -
  have "hd (stage_block s) \<noteq> [] \<and> hd (hd (stage_block s)) = CHR ''F''"
    by (simp add: stage_block_def from_directive_def split: option.split)
  then show ?thesis
    unfolding stage_text_def using stage_block_nonempty[of s] by (simp add: join_hd join_nonempty)
qed

lemma joined_stages:
  "stages \<noteq> [] \<Longrightarrow>
   join [nl] (concat (map (\<lambda>s. stage_block s @ ['''']) stages)) = join [nl, nl] (map stage_text stages) @ [nl]"
proof (induction stages)
  case Nil
  then show ?case by simp
next
  case (Cons s rest)
  have one: "join [nl] (stage_block s @ ['''']) = stage_text s @ [nl]"
    by (simp add: join_snoc stage_block_nonempty stage_text_def)
  show ?case
  proof (cases rest)
    case Nil
    then show ?thesis using one by simp
  next
    case (Cons t ts)
    then have ne: "concat (map (\<lambda>s. stage_block s @ ['''']) rest) \<noteq> []" by simp
    have "join [nl] ((stage_block s @ ['''']) @ concat (map (\<lambda>s. stage_block s @ ['''']) rest))
            = join [nl] (stage_block s @ ['''']) @ [nl] @ join [nl] (concat (map (\<lambda>s. stage_block s @ ['''']) rest))"
      by (rule join_append) (use ne in simp_all)
    also have "\<dots> = stage_text s @ [nl] @ [nl] @ join [nl, nl] (map stage_text rest) @ [nl]"
      using one Cons.IH Cons by simp
    finally show ?thesis using Cons by simp
  qed
qed

lemma isspace_nl: "isspace nl"
  by (simp add: isspace_def)

lemma not_isspace_F: "\<not> isspace (CHR ''F'')"
  by (simp add: isspace_def)

lemma rstrip_Cons: "\<not> isspace c \<Longrightarrow> rstrip (c # s) = c # rstrip s"
  by (simp add: rstrip_def dropWhile_append)

lemma rstrip_append: "rstrip ys \<noteq> [] \<Longrightarrow> rstrip (xs @ ys) = xs @ rstrip ys"
  by (auto simp add: rstrip_def dropWhile_append)

lemma rstrip_snoc_space: "isspace c \<Longrightarrow> rstrip (s @ [c]) = rstrip s"
  by (simp add: rstrip_def)

lemma rstrip_last: "rstrip s \<noteq> [] \<Longrightarrow> \<not> isspace (last (rstrip s))"
proof -
  assume ne: "rstrip s \<noteq> []"
  then have d: "dropWhile isspace (rev s) \<noteq> []" by (simp add: rstrip_def)
  then have "\<not> isspace (hd (dropWhile isspace (rev s)))" by (rule hd_dropWhile)
  then show ?thesis using d by (simp add: rstrip_def last_rev)
qed

lemma rstrip_F: "s \<noteq> [] \<Longrightarrow> hd s = CHR ''F'' \<Longrightarrow> rstrip s \<noteq> [] \<and> hd (rstrip s) = CHR ''F''"
  by (cases s) (simp_all add: rstrip_Cons not_isspace_F)

lemma generated_text:
  assumes "stages \<noteq> []"
  shows "generate_dockerfile stages
           = join [nl, nl] (map stage_text (butlast stages) @ [rstrip (stage_text (last stages))])
         \<and> generate_dockerfile stages \<noteq> []
         \<and> hd (generate_dockerfile stages) = CHR ''F''
         \<and> \<not> isspace (last (generate_dockerfile stages))
         \<and> hd (stage_text s) = CHR ''F''"
proof -
  let ?J = "join [nl, nl] (map stage_text stages)"
  have Jne: "?J \<noteq> []" and Jhd: "hd ?J = CHR ''F''"
    using assms stage_text_starts by (simp_all add: join_nonempty join_hd hd_map)
  have "generate_dockerfile stages = strip (?J @ [nl])"
    using assms by (simp add: generate_dockerfile_def dockerfile_lines_eq joined_stages)
  also have "\<dots> = rstrip (?J @ [nl])"
    using Jne Jhd not_isspace_F by (cases ?J) (simp_all add: strip_def lstrip_def)
  also have "\<dots> = rstrip ?J"
    by (simp add: rstrip_snoc_space isspace_nl)
  finally have g: "generate_dockerfile stages = rstrip ?J" .
  have r: "rstrip ?J \<noteq> [] \<and> hd (rstrip ?J) = CHR ''F''"
    using Jne Jhd by (rule rstrip_F)
  have lastne: "rstrip (stage_text (last stages)) \<noteq> []"
    using stage_text_starts[of "last stages"] rstrip_F by blast
  have split: "map stage_text stages = map stage_text (butlast stages) @ [stage_text (last stages)]"
    using assms by (metis append_butlast_last_id map_append list.simps(8,9))
  have "rstrip ?J = join [nl, nl] (map stage_text (butlast stages) @ [rstrip (stage_text (last stages))])"
  proof (cases "butlast stages = []")
    case True
    then show ?thesis unfolding split by simp
  next
    case False
    have "rstrip ((join [nl, nl] (map stage_text (butlast stages)) @ [nl, nl]) @ stage_text (last stages))
            = (join [nl, nl] (map stage_text (butlast stages)) @ [nl, nl]) @ rstrip (stage_text (last stages))"
      using lastne by (rule rstrip_append)
    then show ?thesis unfolding split join_snoc using False by simp
  qed
  then show ?thesis
    using g r rstrip_last[of ?J] stage_text_starts[of s] by simp
qed

lemma isspace_code: "isspace c = (of_char c \<in> {9::nat, 10, 11, 12, 13, 28, 29, 30, 31, 32, 133, 160})"
  by (auto simp add: isspace_def Let_def)

lemmas block_defs =
  stage_block_def stage_defaults_def from_directive_def optional_directive_def
  vector_directive_def quoted_list_def add_to_docker_def copy_to_docker_def

lemma example_build_block:
  "stage_block example_build = [''FROM golang:1.22 AS build'', ''RUN go build -o /app'']"
  by (simp add: example_build_def block_defs)

lemma example_final_block:
  "stage_block example_final = [''FROM alpine'', ''CMD ['' @ [dq] @ ''/app'' @ [dq] @ '']'']"
  by (simp add: example_final_def block_defs)

lemma example_two_stage_text:
  "generate_dockerfile [example_build, example_final]
     = ''FROM golang:1.22 AS build'' @ [nl] @ ''RUN go build -o /app'' @ [nl, nl]
       @ ''FROM alpine'' @ [nl] @ ''CMD ['' @ [dq] @ ''/app'' @ [dq] @ '']''"
  by (simp add: generate_dockerfile_def dockerfile_lines_eq example_build_block example_final_block
      strip_def lstrip_def rstrip_def isspace_code)

lemma split_on_unsplit: "c \<notin> set l \<Longrightarrow> split_on c l = [l]"
  by (induction l) auto

lemma split_on_first: "c \<notin> set l \<Longrightarrow> split_on c (l @ c # rest) = l # split_on c rest"
  by (induction l) auto

lemma split_on_join:
  "ls \<noteq> [] \<Longrightarrow> \<forall>l \<in> set ls. c \<notin> set l \<Longrightarrow> split_on c (join [c] ls) = ls"
proof (induction "[c]" ls rule: join.induct)
  case 1
  then show ?case by simp
next
  case (2 x)
  then show ?case by (simp add: split_on_unsplit)
next
  case (3 x y ys)
  then show ?case by (simp add: split_on_first)
qed

lemma separated_nonempty: "bs \<noteq> [] \<Longrightarrow> \<forall>b \<in> set bs. b \<noteq> [] \<Longrightarrow> separated_by_blank bs \<noteq> []"
  by (induction bs rule: separated_by_blank.induct) simp_all

lemma join_blocks:
  "\<forall>b \<in> set bs. b \<noteq> [] \<Longrightarrow> join [nl, nl] (map (join [nl]) bs) = join [nl] (separated_by_blank bs)"
proof (induction bs rule: separated_by_blank.induct)
  case 1
  then show ?case by simp
next
  case (2 b)
  then show ?case by simp
next
  case (3 b c bs)
  have ne: "separated_by_blank (c # bs) \<noteq> []"
    using 3 by (simp add: separated_nonempty)
  have "join [nl] (b @ ([''''] @ separated_by_blank (c # bs)))
          = join [nl] b @ [nl] @ join [nl] ([''''] @ separated_by_blank (c # bs))"
    using 3 by (intro join_append) simp_all
  also have "join [nl] ([''''] @ separated_by_blank (c # bs)) = '''' @ [nl] @ join [nl] (separated_by_blank (c # bs))"
    using ne join_append[of "['''']" "separated_by_blank (c # bs)" "[nl]"] by simp
  finally show ?case using 3 by simp
qed

lemma separated_lines:
  "l \<in> set (separated_by_blank bs) \<Longrightarrow> l = [] \<or> (\<exists>b \<in> set bs. l \<in> set b)"
  by (induction bs rule: separated_by_blank.induct) auto

lemma rstrip_subset: "set (rstrip l) \<subseteq> set l"
  unfolding rstrip_def using set_dropWhileD[of _ isspace "rev l"] by auto

lemma rstrip_starts: "l \<noteq> [] \<Longrightarrow> \<not> isspace (hd l) \<Longrightarrow> rstrip l \<noteq> []"
  by (cases l) (simp_all add: rstrip_Cons)

lemma not_isspace_letters:
  "\<not> isspace (CHR ''F'')" "\<not> isspace (CHR ''M'')" "\<not> isspace (CHR ''L'')" "\<not> isspace (CHR ''A'')"
  "\<not> isspace (CHR ''E'')" "\<not> isspace (CHR ''W'')" "\<not> isspace (CHR ''C'')" "\<not> isspace (CHR ''R'')"
  "\<not> isspace (CHR ''O'')" "\<not> isspace (CHR ''S'')" "\<not> isspace (CHR ''U'')" "\<not> isspace (CHR ''V'')"
  "\<not> isspace (CHR ''H'')"
  by (simp_all add: isspace_code)

lemma optional_line_starts:
  "k \<noteq> [] \<Longrightarrow> \<not> isspace (hd k) \<Longrightarrow> l \<in> set (optional_directive k f) \<Longrightarrow> l \<noteq> [] \<and> \<not> isspace (hd l)"
  by (auto simp add: optional_directive_def split: option.splits if_splits)

lemma vector_line_starts:
  "k \<noteq> [] \<Longrightarrow> \<not> isspace (hd k) \<Longrightarrow> l \<in> set (vector_directive k f) \<Longrightarrow> l \<noteq> [] \<and> \<not> isspace (hd l)"
  by (auto simp add: vector_directive_def split: option.splits if_splits)

lemma block_line_starts: "l \<in> set (stage_block s) \<Longrightarrow> l \<noteq> [] \<and> \<not> isspace (hd l)"
  unfolding stage_block_def set_append Un_iff
  apply (elim disjE)
  apply (auto simp add: from_directive_def add_to_docker_def copy_to_docker_def not_isspace_letters
          dest!: optional_line_starts[rotated 2] vector_line_starts[rotated 2] split: option.splits if_splits)
  done

lemma trim_end_text:
  assumes "b \<noteq> []" and "\<forall>l \<in> set b. l \<noteq> [] \<and> \<not> isspace (hd l)"
  shows "rstrip (join [nl] b) = join [nl] (trim_end b)"
proof -
  have b: "b = butlast b @ [last b]" using assms(1) by simp
  have l: "rstrip (last b) \<noteq> []"
    using assms by (intro rstrip_starts) simp_all
  show ?thesis
  proof (cases "butlast b = []")
    case True
    then have "b = [last b]" using b by simp
    then obtain x where x: "b = [x]" by blast
    show ?thesis unfolding x by (simp add: trim_end_def)
  next
    case False
    have "rstrip (join [nl] (butlast b @ [last b])) = rstrip ((join [nl] (butlast b) @ [nl]) @ last b)"
      using False by (simp add: join_snoc)
    also have "\<dots> = (join [nl] (butlast b) @ [nl]) @ rstrip (last b)"
      using l by (rule rstrip_append)
    also have "\<dots> = join [nl] (butlast b @ [rstrip (last b)])"
      using False by (simp add: join_snoc)
    finally show ?thesis using b by (simp add: trim_end_def)
  qed
qed

lemma generated_lines:
  assumes "stages \<noteq> []" and "\<forall>s \<in> set stages. \<forall>l \<in> set (stage_block s). nl \<notin> set l"
    and g: "generate_dockerfile stages
              = join [nl, nl] (map stage_text (butlast stages) @ [rstrip (stage_text (last stages))])"
  shows "split_on nl (generate_dockerfile stages)
           = separated_by_blank (map stage_block (butlast stages) @ [trim_end (stage_block (last stages))])"
proof -
  let ?bs = "map stage_block (butlast stages) @ [trim_end (stage_block (last stages))]"
  have last_in: "last stages \<in> set stages" using assms(1) by simp
  have but_in: "s \<in> set stages" if "s \<in> set (butlast stages)" for s
    using that by (rule in_set_butlastD)
  have t: "rstrip (join [nl] (stage_block (last stages))) = join [nl] (trim_end (stage_block (last stages)))"
  proof (rule trim_end_text)
    show "stage_block (last stages) \<noteq> []" by (rule stage_block_nonempty)
    show "\<forall>l \<in> set (stage_block (last stages)). l \<noteq> [] \<and> \<not> isspace (hd l)"
      using block_line_starts by blast
  qed
  have texts: "map stage_text (butlast stages) @ [rstrip (stage_text (last stages))] = map (join [nl]) ?bs"
    by (simp add: t stage_text_def)
  have ne: "\<forall>b \<in> set ?bs. b \<noteq> []"
    by (auto simp add: stage_block_nonempty trim_end_def)
  have gen: "generate_dockerfile stages = join [nl] (separated_by_blank ?bs)"
    unfolding g texts using ne by (rule join_blocks)
  have free: "nl \<notin> set l" if "l \<in> set (separated_by_blank ?bs)" for l
  proof -
    from separated_lines[OF that] consider "l = []" | b where "b \<in> set ?bs" "l \<in> set b" by blast
    then show ?thesis
    proof cases
      case 1
      then show ?thesis by simp
    next
      case 2
      then consider s where "s \<in> set (butlast stages)" "l \<in> set (stage_block s)"
        | "l \<in> set (trim_end (stage_block (last stages)))" by auto
      then show ?thesis
      proof cases
        case 1
        then show ?thesis using assms(2) but_in by blast
      next
        case 2
        then consider "l \<in> set (butlast (stage_block (last stages)))" | "l = rstrip (last (stage_block (last stages)))"
          by (auto simp add: trim_end_def)
        then show ?thesis
        proof cases
          case 1
          then have "l \<in> set (stage_block (last stages))" by (rule in_set_butlastD)
          then show ?thesis using assms(2) last_in by blast
        next
          case 2
          have "last (stage_block (last stages)) \<in> set (stage_block (last stages))"
            using stage_block_nonempty by simp
          then have "nl \<notin> set (last (stage_block (last stages)))" using assms(2) last_in by blast
          then show ?thesis unfolding 2 using rstrip_subset by blast
        qed
      qed
    qed
  qed
  have "separated_by_blank ?bs \<noteq> []"
    using ne by (intro separated_nonempty) simp_all
  then show ?thesis
    unfolding gen using free by (intro split_on_join) blast+
qed

text \<open>
  C9 (as amended). For every non-empty list of stages, the compiled text is the texts of
  the stage blocks joined by two line feeds, the final \<open>strip\<close> only removing the whitespace
  that ends the last block; it is not empty, starts with the \<open>F\<close> of the first \<open>FROM\<close> and
  ends with a character that is not whitespace, so it neither starts nor ends with a line
  feed. No line of a block is empty or starts with whitespace. When no rendered directive
  contains a line feed, the lines of the text are the lines of the blocks with exactly one
  empty line between consecutive blocks.
\<close>

theorem generate_dockerfile_blank_lines:
  assumes "stages \<noteq> []"
  shows "generate_dockerfile stages
           = join [nl, nl] (map stage_text (butlast stages) @ [rstrip (stage_text (last stages))])
         \<and> generate_dockerfile stages \<noteq> []
         \<and> hd (generate_dockerfile stages) = CHR ''F''
         \<and> \<not> isspace (last (generate_dockerfile stages))
         \<and> hd (stage_text s) = CHR ''F''
         \<and> (\<forall>l \<in> set (stage_block s). l \<noteq> [] \<and> \<not> isspace (hd l))
         \<and> ((\<forall>s \<in> set stages. \<forall>l \<in> set (stage_block s). nl \<notin> set l) \<longrightarrow>
              split_on nl (generate_dockerfile stages)
                = separated_by_blank (map stage_block (butlast stages) @ [trim_end (stage_block (last stages))]))"
proof -
  note t = generated_text[OF assms, of s]
  have lines: "split_on nl (generate_dockerfile stages)
                 = separated_by_blank (map stage_block (butlast stages) @ [trim_end (stage_block (last stages))])"
    if "\<forall>s \<in> set stages. \<forall>l \<in> set (stage_block s). nl \<notin> set l"
    using assms that t by (intro generated_lines) simp_all
  have starts: "\<forall>l \<in> set (stage_block s). l \<noteq> [] \<and> \<not> isspace (hd l)"
    using block_line_starts by blast
  show ?thesis
    using t lines starts by blast
qed

lemma trailing_feed_loads:
  "load_configs_from_excel python [trailing_feed_row, second_stage_row]
     = Inr [(''svc5'', [stage_defaults None (''golang'' @ [nl]), stage_defaults None ''alpine''])]"
  by code_simp

lemma trailing_feed_text:
  "generate_dockerfile [stage_defaults None (''golang'' @ [nl]), stage_defaults None ''alpine'']
     = ''FROM golang'' @ [nl, nl, nl] @ ''FROM alpine''"
  by (simp add: generate_dockerfile_def dockerfile_lines_eq block_defs strip_def lstrip_def rstrip_def isspace_code)

lemma trailing_feed_lines:
  "split_on nl (''FROM golang'' @ [nl, nl, nl] @ ''FROM alpine'') = [''FROM golang'', '''', '''', ''FROM alpine'']"
  by simp

theorem trailing_line_feed_counterexample:
  "load_configs_from_excel python [trailing_feed_row, second_stage_row]
     = Inr [(''svc5'', [stage_defaults None (''golang'' @ [nl]), stage_defaults None ''alpine''])]
   \<and> generate_dockerfile [stage_defaults None (''golang'' @ [nl]), stage_defaults None ''alpine'']
     = ''FROM golang'' @ [nl, nl, nl] @ ''FROM alpine''
   \<and> split_on nl (generate_dockerfile [stage_defaults None (''golang'' @ [nl]), stage_defaults None ''alpine''])
     = [''FROM golang'', '''', '''', ''FROM alpine'']"
  using trailing_feed_loads trailing_feed_lines by (simp only: trailing_feed_text)

lemma example_lines_single:
  "\<forall>s \<in> set [example_build, example_final]. \<forall>l \<in> set (stage_block s). nl \<notin> set l"
  by (simp add: example_build_block example_final_block)

lemma example_separated:
  "separated_by_blank (map stage_block (butlast [example_build, example_final]) @ [trim_end (stage_block example_final)])
     = [''FROM golang:1.22 AS build'', ''RUN go build -o /app'', '''', ''FROM alpine'',
        ''CMD ['' @ [dq] @ ''/app'' @ [dq] @ '']'']"
  by (simp add: example_build_block example_final_block trim_end_def rstrip_def isspace_code)

theorem generate_dockerfile_blank_lines_witness:
  "[example_build, example_final] \<noteq> []
   \<and> stage_block example_build = [''FROM golang:1.22 AS build'', ''RUN go build -o /app'']
   \<and> stage_block example_final = [''FROM alpine'', ''CMD ['' @ [dq] @ ''/app'' @ [dq] @ '']'']
   \<and> generate_dockerfile [example_build, example_final]
       = ''FROM golang:1.22 AS build'' @ [nl] @ ''RUN go build -o /app'' @ [nl, nl]
         @ ''FROM alpine'' @ [nl] @ ''CMD ['' @ [dq] @ ''/app'' @ [dq] @ '']''
   \<and> split_on nl (generate_dockerfile [example_build, example_final])
       = [''FROM golang:1.22 AS build'', ''RUN go build -o /app'', '''', ''FROM alpine'',
          ''CMD ['' @ [dq] @ ''/app'' @ [dq] @ '']'']
   \<and> \<not> isspace (last (generate_dockerfile [example_build, example_final]))"
proof -
  have ne: "[example_build, example_final] \<noteq> []"
    by simp
  note t = generate_dockerfile_blank_lines[OF ne, of example_final]
  have sp: "\<not> isspace (last (generate_dockerfile [example_build, example_final]))"
    using t by blast
  have "split_on nl (generate_dockerfile [example_build, example_final])
          = separated_by_blank (map stage_block (butlast [example_build, example_final])
              @ [trim_end (stage_block (last [example_build, example_final]))])"
    using t example_lines_single by blast
  then have ln: "split_on nl (generate_dockerfile [example_build, example_final])
      = [''FROM golang:1.22 AS build'', ''RUN go build -o /app'', '''', ''FROM alpine'',
         ''CMD ['' @ [dq] @ ''/app'' @ [dq] @ '']'']"
    using example_separated by simp
  show ?thesis
    using ne sp ln example_build_block example_final_block example_two_stage_text by blast
qed
section \<open>Properties of map-valued fields\<close>

lemma dict_set_keys: "set (map fst (dict_set d k v)) = insert k (set (map fst d))"
proof (induction d)
  case Nil
  then show ?case by simp
next
  case (Cons a d)
  obtain k' v' where a: "a = (k', v')" by (cases a)
  show ?case using Cons a by (cases "k' = k") auto
qed

lemma dict_set_distinct: "distinct (map fst d) \<Longrightarrow> distinct (map fst (dict_set d k v))"
  by (induction d) (auto simp add: dict_set_keys[simplified])

lemma dict_set_lookup: "map_of (dict_set d k v) = (map_of d)(k \<mapsto> v)"
  by (induction d) auto

lemma parse_fold_keys:
  "set (map fst (foldl (\<lambda>result kv.
                  if CHR ''='' \<in> set kv
                  then (case split_first (CHR ''='') kv of (k, v) \<Rightarrow> dict_set result (strip k) (strip v))
                  else result) d ts))
     = set (map fst d) \<union> set (map token_key (filter (\<lambda>kv. CHR ''='' \<in> set kv) ts))"
  by (induction ts arbitrary: d) (auto simp add: dict_set_keys[simplified] split_first_def token_key_def)

lemma parse_fold_distinct:
  "distinct (map fst d) \<Longrightarrow>
   distinct (map fst (foldl (\<lambda>result kv.
                  if CHR ''='' \<in> set kv
                  then (case split_first (CHR ''='') kv of (k, v) \<Rightarrow> dict_set result (strip k) (strip v))
                  else result) d ts))"
  by (induction ts arbitrary: d) (auto simp add: dict_set_distinct split_first_def)

lemma split_on_nonempty: "split_on sep s \<noteq> []"
  by (induction s) (auto split: list.splits)

lemma split_on_concat: "t \<in> set (split_on sep s) \<Longrightarrow> x \<in> set t \<Longrightarrow> x \<in> set s"
proof (induction s arbitrary: t)
  case Nil
  then show ?case by simp
next
  case (Cons c cs)
  obtain u us where u: "split_on sep cs = u # us"
    using split_on_nonempty[of sep cs] by (cases "split_on sep cs") auto
  show ?case
  proof (cases "c = sep")
    case True
    then show ?thesis using Cons by auto
  next
    case False
    then have "t = c # u \<or> t \<in> set us" using Cons.prems u by auto
    then show ?thesis using Cons.IH[of u] Cons.IH[of t] Cons.prems u by auto
  qed
qed

lemma strip_empty_all_space: "strip c = [] \<Longrightarrow> x \<in> set c \<Longrightarrow> isspace x"
proof -
  assume a: "strip c = []" and x: "x \<in> set c"
  have all: "\<forall>y \<in> set (dropWhile isspace c). isspace y"
    using a by (simp add: strip_def rstrip_def lstrip_def)
  have "dropWhile isspace c = []"
  proof (rule ccontr)
    assume ne: "dropWhile isspace c \<noteq> []"
    then have "\<not> isspace (hd (dropWhile isspace c))" by (rule hd_dropWhile)
    moreover have "hd (dropWhile isspace c) \<in> set (dropWhile isspace c)" using ne by simp
    ultimately show False using all by blast
  qed
  then show ?thesis using x by simp
qed

lemma blank_cell_no_tokens: "strip c = [] \<Longrightarrow> kv_tokens sep c = []"
proof -
  assume a: "strip c = []"
  have "\<not> isspace (CHR ''='')" by (simp add: isspace_code)
  then have "CHR ''='' \<notin> set c" using strip_empty_all_space[OF a] by blast
  then have "\<forall>t \<in> set (split_on sep c). CHR ''='' \<notin> set t"
    using split_on_concat[of _ sep c] by blast
  then show ?thesis by (simp add: kv_tokens_def filter_empty_conv)
qed

lemma parse_keys: "set (map fst (parse_key_value_pairs (Some c) sep)) = set (map token_key (kv_tokens sep c))"
proof (cases "strip c = []")
  case True
  then have "c = [] \<or> strip c = []" by simp
  then show ?thesis
    using blank_cell_no_tokens[OF True, of sep] by (simp add: parse_key_value_pairs_def)
next
  case False
  then have "c \<noteq> []" by (auto simp add: strip_def rstrip_def lstrip_def)
  then show ?thesis
    using False parse_fold_keys[of "[]" "split_on sep c"]
    by (simp add: parse_key_value_pairs_def kv_tokens_def)
qed

lemma parse_distinct: "distinct (map fst (parse_key_value_pairs cell sep))"
  using parse_fold_distinct[of "[]"] by (simp add: parse_key_value_pairs_def split: option.split)

lemma parse_length: "length (parse_key_value_pairs (Some c) sep) = card (set (map token_key (kv_tokens sep c)))"
  using parse_keys[of c sep] parse_distinct[of "Some c" sep] distinct_card[of "map fst (parse_key_value_pairs (Some c) sep)"]
  by simp

lemma count_lines:
  "count_directives k (dockerfile_lines stages) = sum_list (map (\<lambda>s. count_directives k (stage_block s @ [''''])) stages)"
  unfolding dockerfile_lines_eq count_directives_def by (induction stages) simp_all

lemma parse_fold_lookup:
  "map_of (foldl (\<lambda>result kv.
                  if CHR ''='' \<in> set kv
                  then (case split_first (CHR ''='') kv of (k, v) \<Rightarrow> dict_set result (strip k) (strip v))
                  else result) d ts)
     = map_of d ++ map_of (rev (map (\<lambda>kv. (token_key kv, token_value kv)) (filter (\<lambda>kv. CHR ''='' \<in> set kv) ts)))"
  by (induction ts arbitrary: d)
     (auto simp add: dict_set_lookup split_first_def token_key_def token_value_def map_add_upd_left
           map_add_def fun_eq_iff split: option.splits)

lemma count_block:
  "count_directives ''ENV'' (stage_block s) = length (env_vars s)
   \<and> count_directives ''ARG'' (stage_block s) = length (args s)
   \<and> count_directives ''LABEL'' (stage_block s) = length (label_pairs s)"
proof -
  have "count_directives k (stage_block s) = length (filter (\<lambda>x. x = k) (stage_keywords s))" for k
    unfolding count_directives_def stage_block_keywords[symmetric] filter_map by (simp add: comp_def)
  then show ?thesis
    by (simp add: stage_keywords_def)
qed

lemma count_single_stage:
  "count_directives ''ENV'' (dockerfile_lines [s]) = length (env_vars s)
   \<and> count_directives ''ARG'' (dockerfile_lines [s]) = length (args s)
   \<and> count_directives ''LABEL'' (dockerfile_lines [s]) = length (label_pairs s)"
proof -
  have "count_directives k (dockerfile_lines [s])
          = count_directives k (stage_block s) + (if directive_keyword [] = k then 1 else 0)" for k
    by (simp add: dockerfile_lines_eq count_directives_def)
  then show ?thesis
    using count_block[of s] by (simp add: directive_keyword_empty)
qed

lemma parse_lookup:
  "map_of (parse_key_value_pairs (Some c) sep)
     = map_of (rev (map (\<lambda>kv. (token_key kv, token_value kv)) (kv_tokens sep c)))"
proof (cases "strip c = []")
  case True
  then show ?thesis
    using blank_cell_no_tokens[OF True, of sep] by (simp add: parse_key_value_pairs_def)
next
  case False
  then have "c \<noteq> []" by (auto simp add: strip_def rstrip_def lstrip_def)
  then show ?thesis
    using False parse_fold_lookup[of "[]" "split_on sep c"]
    by (simp add: parse_key_value_pairs_def kv_tokens_def)
qed

lemma dict_set_key_order:
  "map fst (dict_set d k v) = (if k \<in> set (map fst d) then map fst d else map fst d @ [k])"
proof (induction d)
  case Nil
  then show ?case by simp
next
  case (Cons a d)
  obtain k' v' where a: "a = (k', v')" by (cases a)
  show ?case using Cons a by (cases "k' = k") auto
qed

lemma parse_fold_key_order:
  "map fst (foldl (\<lambda>result kv.
                  if CHR ''='' \<in> set kv
                  then (case split_first (CHR ''='') kv of (k, v) \<Rightarrow> dict_set result (strip k) (strip v))
                  else result) d ts)
     = map fst d @ filter (\<lambda>k. k \<notin> set (map fst d))
                     (first_occurrences (map token_key (filter (\<lambda>kv. CHR ''='' \<in> set kv) ts)))"
proof (induction ts arbitrary: d)
  case Nil
  then show ?case by simp
next
  case (Cons t ts)
  show ?case
  proof (cases "CHR ''='' \<in> set t")
    case False
    then show ?thesis using Cons.IH[of d] by simp
  next
    case True
    let ?k = "token_key t"
    let ?d = "dict_set d ?k (token_value t)"
    let ?rest = "first_occurrences (map token_key (filter (\<lambda>kv. CHR ''='' \<in> set kv) ts))"
    have step: "foldl (\<lambda>result kv.
                  if CHR ''='' \<in> set kv
                  then (case split_first (CHR ''='') kv of (k, v) \<Rightarrow> dict_set result (strip k) (strip v))
                  else result) d (t # ts)
              = foldl (\<lambda>result kv.
                  if CHR ''='' \<in> set kv
                  then (case split_first (CHR ''='') kv of (k, v) \<Rightarrow> dict_set result (strip k) (strip v))
                  else result) ?d ts"
      using True by (simp add: split_first_def token_key_def token_value_def)
    have ih: "map fst (foldl (\<lambda>result kv.
                  if CHR ''='' \<in> set kv
                  then (case split_first (CHR ''='') kv of (k, v) \<Rightarrow> dict_set result (strip k) (strip v))
                  else result) ?d ts)
              = map fst ?d @ filter (\<lambda>k. k \<notin> set (map fst ?d)) ?rest"
      by (rule Cons.IH)
    show ?thesis
    proof (cases "?k \<in> set (map fst d)")
      case known: True
      then have keys: "map fst ?d = map fst d" by (simp add: dict_set_key_order)
      have "filter (\<lambda>k. k \<notin> set (map fst d)) (filter (\<lambda>y. y \<noteq> ?k) ?rest)
              = filter (\<lambda>k. k \<notin> set (map fst d)) ?rest"
        unfolding filter_filter by (rule filter_cong[OF refl]) (use known in auto)
      then show ?thesis
        unfolding step ih keys using True known by simp
    next
      case new: False
      then have keys: "map fst ?d = map fst d @ [?k]" by (simp add: dict_set_key_order)
      have "filter (\<lambda>k. k \<notin> set (map fst d @ [?k])) ?rest
              = filter (\<lambda>k. k \<notin> set (map fst d)) (filter (\<lambda>y. y \<noteq> ?k) ?rest)"
        unfolding filter_filter by (rule filter_cong[OF refl]) auto
      then show ?thesis
        unfolding step ih keys using True new by simp
    qed
  qed
qed

lemma parse_key_order:
  "map fst (parse_key_value_pairs (Some c) sep) = first_occurrences (map token_key (kv_tokens sep c))"
proof (cases "strip c = []")
  case True
  then show ?thesis
    using blank_cell_no_tokens[OF True, of sep] by (simp add: parse_key_value_pairs_def)
next
  case False
  then have "c \<noteq> []" by (auto simp add: strip_def rstrip_def lstrip_def)
  then show ?thesis
    using False parse_fold_key_order[of "[]" "split_on sep c"]
    by (simp add: parse_key_value_pairs_def kv_tokens_def)
qed

lemma filter_by_keyword:
  "map directive_keyword xs = replicate n K \<Longrightarrow>
   filter (\<lambda>l. directive_keyword l = k) xs = (if K = k then xs else [])"
proof -
  assume a: "map directive_keyword xs = replicate n K"
  have "directive_keyword x = K" if "x \<in> set xs" for x
  proof -
    have "directive_keyword x \<in> set (map directive_keyword xs)" using that by simp
    then show ?thesis unfolding a by simp
  qed
  then show ?thesis by (auto simp add: filter_empty_conv filter_id_conv)
qed

lemma kw_env: "map directive_keyword (map (\<lambda>(k, v). ''ENV '' @ k @ ''='' @ v) xs) = replicate (length xs) ''ENV''"
  by (rule kw_map_const) (simp add: directive_keyword_def split: prod.split)

lemma kw_arg: "map directive_keyword (map (\<lambda>(k, v). ''ARG '' @ k @ ''='' @ v) xs) = replicate (length xs) ''ARG''"
  by (rule kw_map_const) (simp add: directive_keyword_def split: prod.split)

lemma kw_label:
  "map directive_keyword (map (\<lambda>(k, v). ''LABEL '' @ k @ ''='' @ [dq] @ v @ [dq]) xs) = replicate (length xs) ''LABEL''"
  by (rule kw_map_const) (simp add: directive_keyword_def split: prod.split)

lemma kw_run: "map directive_keyword (map (\<lambda>c. ''RUN '' @ c) xs) = replicate (length xs) ''RUN''"
  by (rule kw_map_const) (simp add: directive_keyword_def)

lemma kw_volume:
  "map directive_keyword (map (\<lambda>v. ''VOLUME ['' @ [dq] @ v @ [dq] @ '']'') xs) = replicate (length xs) ''VOLUME''"
  by (rule kw_map_const) (simp add: directive_keyword_def)

lemma kw_expose: "map directive_keyword (map (\<lambda>p. ''EXPOSE '' @ str_int p) xs) = replicate (length xs) ''EXPOSE''"
  by (rule kw_map_const) (simp add: directive_keyword_def)

lemma kw_adds: "map directive_keyword (map add_to_docker xs) = replicate (length xs) ''ADD''"
  by (rule kw_map_const) (rule kw_add)

lemma kw_copies: "map directive_keyword (map copy_to_docker xs) = replicate (length xs) ''COPY''"
  by (rule kw_map_const) (rule kw_copy)

lemma kw_from1: "map directive_keyword (from_directive s) = replicate 1 ''FROM''"
  by (simp add: kw_from)

lemma filter_optional:
  "CHR '' '' \<notin> set K \<Longrightarrow>
   filter (\<lambda>l. directive_keyword l = k) (optional_directive K f) = (if K = k then optional_directive K f else [])"
  by (rule filter_by_keyword[OF kw_optional])

lemma filter_vector:
  "CHR '' '' \<notin> set K \<Longrightarrow>
   filter (\<lambda>l. directive_keyword l = k) (vector_directive K f) = (if K = k then vector_directive K f else [])"
  by (rule filter_by_keyword[OF kw_vector])

lemma map_field_lines:
  "filter (\<lambda>l. directive_keyword l = ''ENV'') (stage_block s) = map (\<lambda>(k, v). ''ENV '' @ k @ ''='' @ v) (env_vars s)
   \<and> filter (\<lambda>l. directive_keyword l = ''ARG'') (stage_block s) = map (\<lambda>(k, v). ''ARG '' @ k @ ''='' @ v) (args s)
   \<and> filter (\<lambda>l. directive_keyword l = ''LABEL'') (stage_block s)
       = map (\<lambda>(k, v). ''LABEL '' @ k @ ''='' @ [dq] @ v @ [dq]) (label_pairs s)"
  unfolding stage_block_def filter_append
  by (simp only: filter_by_keyword[OF kw_from1] 
        filter_by_keyword[OF kw_env] filter_by_keyword[OF kw_arg] filter_by_keyword[OF kw_label]
        filter_by_keyword[OF kw_run] filter_by_keyword[OF kw_volume] filter_by_keyword[OF kw_expose]
        filter_by_keyword[OF kw_adds] filter_by_keyword[OF kw_copies])
     (simp add: filter_optional filter_vector)

lemma map_field_lines_single:
  "filter (\<lambda>l. directive_keyword l = ''ENV'') (dockerfile_lines [s]) = map (\<lambda>(k, v). ''ENV '' @ k @ ''='' @ v) (env_vars s)
   \<and> filter (\<lambda>l. directive_keyword l = ''ARG'') (dockerfile_lines [s]) = map (\<lambda>(k, v). ''ARG '' @ k @ ''='' @ v) (args s)
   \<and> filter (\<lambda>l. directive_keyword l = ''LABEL'') (dockerfile_lines [s])
       = map (\<lambda>(k, v). ''LABEL '' @ k @ ''='' @ [dq] @ v @ [dq]) (label_pairs s)"
  using map_field_lines[of s] by (simp add: dockerfile_lines_eq directive_keyword_empty)

text \<open>
  C4 (as amended). For every map-valued field text, whatever the rest of the stage, the
  ENV (ARG, LABEL) directives the compiler renders for the parsed field are one line per
  distinct whitespace-trimmed key among the \<open>;\<close>-separated tokens that contain an \<open>=\<close>, so
  their number is the number of distinct keys. The lines stand in the order in which the
  keys occur first among the tokens, and each key carries the trimmed value of the last
  token that names it.
\<close>

theorem map_field_directive_count:
  "count_directives ''ENV'' (dockerfile_lines [s\<lparr>env_vars := parse_key_value_pairs (Some c) (CHR '';'')\<rparr>])
     = card (set (map token_key (kv_tokens (CHR '';'') c)))
   \<and> count_directives ''ARG'' (dockerfile_lines [s\<lparr>args := parse_key_value_pairs (Some c) (CHR '';'')\<rparr>])
     = card (set (map token_key (kv_tokens (CHR '';'') c)))
   \<and> count_directives ''LABEL'' (dockerfile_lines [s\<lparr>label_pairs := parse_key_value_pairs (Some c) (CHR '';'')\<rparr>])
     = card (set (map token_key (kv_tokens (CHR '';'') c)))
   \<and> filter (\<lambda>l. directive_keyword l = ''ENV'')
         (dockerfile_lines [s\<lparr>env_vars := parse_key_value_pairs (Some c) (CHR '';'')\<rparr>])
     = map (\<lambda>(k, v). ''ENV '' @ k @ ''='' @ v) (parse_key_value_pairs (Some c) (CHR '';''))
   \<and> filter (\<lambda>l. directive_keyword l = ''ARG'')
         (dockerfile_lines [s\<lparr>args := parse_key_value_pairs (Some c) (CHR '';'')\<rparr>])
     = map (\<lambda>(k, v). ''ARG '' @ k @ ''='' @ v) (parse_key_value_pairs (Some c) (CHR '';''))
   \<and> filter (\<lambda>l. directive_keyword l = ''LABEL'')
         (dockerfile_lines [s\<lparr>label_pairs := parse_key_value_pairs (Some c) (CHR '';'')\<rparr>])
     = map (\<lambda>(k, v). ''LABEL '' @ k @ ''='' @ [dq] @ v @ [dq]) (parse_key_value_pairs (Some c) (CHR '';''))
   \<and> map fst (parse_key_value_pairs (Some c) (CHR '';''))
     = first_occurrences (map token_key (kv_tokens (CHR '';'') c))
   \<and> distinct (map fst (parse_key_value_pairs (Some c) (CHR '';'')))
   \<and> map_of (parse_key_value_pairs (Some c) (CHR '';''))
     = map_of (rev (map (\<lambda>kv. (token_key kv, token_value kv)) (kv_tokens (CHR '';'') c)))"
proof -
  let ?P = "parse_key_value_pairs (Some c) (CHR '';'')"
  have n: "length ?P = card (set (map token_key (kv_tokens (CHR '';'') c)))"
    by (rule parse_length)
  have cnt: "count_directives ''ENV'' (dockerfile_lines [s\<lparr>env_vars := ?P\<rparr>]) = length ?P"
            "count_directives ''ARG'' (dockerfile_lines [s\<lparr>args := ?P\<rparr>]) = length ?P"
            "count_directives ''LABEL'' (dockerfile_lines [s\<lparr>label_pairs := ?P\<rparr>]) = length ?P"
    using count_single_stage[of "s\<lparr>env_vars := ?P\<rparr>"] count_single_stage[of "s\<lparr>args := ?P\<rparr>"]
          count_single_stage[of "s\<lparr>label_pairs := ?P\<rparr>"]
    by simp_all
  have lines:
    "filter (\<lambda>l. directive_keyword l = ''ENV'') (dockerfile_lines [s\<lparr>env_vars := ?P\<rparr>])
       = map (\<lambda>(k, v). ''ENV '' @ k @ ''='' @ v) ?P"
    "filter (\<lambda>l. directive_keyword l = ''ARG'') (dockerfile_lines [s\<lparr>args := ?P\<rparr>])
       = map (\<lambda>(k, v). ''ARG '' @ k @ ''='' @ v) ?P"
    "filter (\<lambda>l. directive_keyword l = ''LABEL'') (dockerfile_lines [s\<lparr>label_pairs := ?P\<rparr>])
       = map (\<lambda>(k, v). ''LABEL '' @ k @ ''='' @ [dq] @ v @ [dq]) ?P"
    using map_field_lines_single[of "s\<lparr>env_vars := ?P\<rparr>"] map_field_lines_single[of "s\<lparr>args := ?P\<rparr>"]
          map_field_lines_single[of "s\<lparr>label_pairs := ?P\<rparr>"]
    by simp_all
  show ?thesis
    unfolding cnt lines n[symmetric]
    using parse_key_order[of c "CHR '';''"] parse_distinct[of "Some c" "CHR '';''"] parse_lookup[of c "CHR '';''"]
    by (intro conjI) (simp_all only:)
qed
lemma repeated_key_parse:
  "parse_key_value_pairs (Some ''A=1;A=2'') (CHR '';'') = [(''A'', ''2'')]"
  by (simp add: parse_key_value_pairs_def strip_def lstrip_def rstrip_def isspace_code split_first_def)

lemma repeated_key_tokens: "kv_tokens (CHR '';'') ''A=1;A=2'' = [''A=1'', ''A=2'']"
  by (simp add: kv_tokens_def)

theorem map_field_count_counterexample:
  "count_directives ''ENV''
     (dockerfile_lines [(stage_defaults None ''alpine'')\<lparr>env_vars := parse_key_value_pairs (Some ''A=1;A=2'') (CHR '';'')\<rparr>]) = 1
   \<and> length (kv_tokens (CHR '';'') ''A=1;A=2'') = 2
   \<and> dockerfile_lines [(stage_defaults None ''alpine'')\<lparr>env_vars := parse_key_value_pairs (Some ''A=1;A=2'') (CHR '';'')\<rparr>]
       = [''FROM alpine'', ''ENV A=2'', '''']"
  using count_single_stage[of "(stage_defaults None ''alpine'')\<lparr>env_vars := [(''A'', ''2'')]\<rparr>"]
  by (simp add: repeated_key_parse repeated_key_tokens dockerfile_lines_eq block_defs)

lemma repeated_key_keeps_first_place:
  "dockerfile_lines [(stage_defaults None ''alpine'')\<lparr>env_vars := parse_key_value_pairs (Some ''A=1;B=1;A=2'') (CHR '';'')\<rparr>]
     = [''FROM alpine'', ''ENV A=2'', ''ENV B=1'', '''']"
  by (simp add: parse_key_value_pairs_def strip_def lstrip_def rstrip_def isspace_code split_first_def
        dockerfile_lines_eq block_defs)

section \<open>Properties of the loader\<close>

lemma load_row_fails_iff:
  "(\<exists>e. load_row py r = Inl e)
     \<longleftrightarrow> (map_of r ''app_name'' = None \<or> (\<exists>e. load_ports py r = Inl e) \<or> map_of r ''base_image'' = None)"
  by (auto simp add: load_row_def row_item_def split: option.splits sum.splits)

lemma load_row_fields:
  "load_row py r = Inr (a, st) \<Longrightarrow>
     map_of r ''app_name'' = Some a \<and> map_of r ''base_image'' = Some (base_image st)
     \<and> load_ports py r = Inr (expose_ports st)
     \<and> add st = load_add py r \<and> copy st = load_copy py r \<and> shell st = load_shell py r"
  by (auto simp add: load_row_def row_item_def split: option.splits sum.splits)

lemma load_row_succeeds:
  "map_of r ''app_name'' = Some a \<Longrightarrow> map_of r ''base_image'' = Some b \<Longrightarrow> load_ports py r = Inr ps \<Longrightarrow>
     \<exists>st. load_row py r = Inr (a, st) \<and> base_image st = b"
  by (simp add: load_row_def row_item_def)

lemma stage_count_append: "stage_count (append_stage cfg a st) = Suc (stage_count cfg)"
proof -
  have none: "map_of cfg a = None \<Longrightarrow> stage_count (dict_set cfg a [st]) = Suc (stage_count cfg)" for cfg
    by (induction cfg) (auto simp add: stage_count_def split: if_splits)
  have some: "map_of cfg a = Some ss \<Longrightarrow> stage_count (dict_set cfg a (ss @ [st])) = Suc (stage_count cfg)" for cfg ss
    by (induction cfg) (auto simp add: stage_count_def split: if_splits)
  show ?thesis
    using none some by (simp add: append_stage_def split: option.split)
qed

lemma stage_pairs_Nil: "stage_pairs [] = []"
  by (simp add: stage_pairs_def)

lemma stage_pairs_Cons: "stage_pairs ((b, ss) # cfg) = map (Pair b) ss @ stage_pairs cfg"
  by (simp add: stage_pairs_def)

lemma stage_pairs_append: "set (stage_pairs (append_stage cfg a st)) = insert (a, st) (set (stage_pairs cfg))"
proof -
  have none: "map_of cfg a = None \<Longrightarrow> set (stage_pairs (dict_set cfg a [st])) = insert (a, st) (set (stage_pairs cfg))" for cfg
  proof (induction cfg)
    case Nil
    then show ?case by (simp add: stage_pairs_Nil stage_pairs_Cons)
  next
    case (Cons x cfg)
    obtain b ss where x: "x = (b, ss)" by (cases x)
    show ?case using Cons x by (auto simp add: stage_pairs_Cons split: if_splits)
  qed
  have some: "map_of cfg a = Some ss \<Longrightarrow>
      set (stage_pairs (dict_set cfg a (ss @ [st]))) = insert (a, st) (set (stage_pairs cfg))" for cfg ss
  proof (induction cfg)
    case Nil
    then show ?case by simp
  next
    case (Cons x cfg)
    obtain b ts where x: "x = (b, ts)" by (cases x)
    show ?case using Cons x by (auto simp add: stage_pairs_Cons split: if_splits)
  qed
  show ?thesis
    using none some by (simp add: append_stage_def split: option.split)
qed

lemma load_rows_error:
  "r \<in> set rows \<Longrightarrow> load_row py r = Inl e \<Longrightarrow> \<exists>e'. load_rows py rows cfg = Inl e'"
proof (induction rows arbitrary: cfg)
  case Nil
  then show ?case by simp
next
  case (Cons x xs)
  show ?case
  proof (cases "load_row py x")
    case (Inl e0)
    then show ?thesis by simp
  next
    case (Inr p)
    then have "x \<noteq> r" using Cons.prems by auto
    then have "r \<in> set xs" using Cons.prems by simp
    then show ?thesis using Cons.IH Cons.prems Inr by (cases p) simp
  qed
qed

lemma load_rows_ok:
  "(\<forall>r \<in> set rows. \<exists>x. load_row py r = Inr x) \<Longrightarrow>
     \<exists>cfg'. load_rows py rows cfg = Inr cfg' \<and> stage_count cfg' = stage_count cfg + length rows"
proof (induction rows arbitrary: cfg)
  case Nil
  then show ?case by simp
next
  case (Cons x xs)
  then obtain a st where x: "load_row py x = Inr (a, st)" by fastforce
  obtain cfg' where "load_rows py xs (append_stage cfg a st) = Inr cfg'"
      and "stage_count cfg' = stage_count (append_stage cfg a st) + length xs"
    using Cons.IH[of "append_stage cfg a st"] Cons.prems by auto
  then show ?case using x by (simp add: stage_count_append)
qed

lemma load_rows_origin:
  "load_rows py rows cfg = Inr cfg' \<Longrightarrow> (a, st) \<in> set (stage_pairs cfg') \<Longrightarrow>
     (a, st) \<in> set (stage_pairs cfg) \<or> (\<exists>r \<in> set rows. load_row py r = Inr (a, st))"
proof (induction rows arbitrary: cfg)
  case Nil
  then show ?case by simp
next
  case (Cons x xs)
  then obtain b su where x: "load_row py x = Inr (b, su)"
    by (cases "load_row py x") auto
  then have "load_rows py xs (append_stage cfg b su) = Inr cfg'" using Cons.prems by simp
  then have "(a, st) \<in> set (stage_pairs (append_stage cfg b su)) \<or> (\<exists>r \<in> set xs. load_row py r = Inr (a, st))"
    using Cons.IH Cons.prems by blast
  then show ?case using x by (auto simp add: stage_pairs_append)
qed

lemma stage_pairs_mem:
  "(a, stages) \<in> set cfg \<Longrightarrow> st \<in> set stages \<Longrightarrow> (a, st) \<in> set (stage_pairs cfg)"
  by (auto simp add: stage_pairs_def)

text \<open>
  C5 (as amended). Every stage of a loaded configuration comes from a record of the batch
  and carries that record's \<open>base_image\<close> cell verbatim; nothing checks that the cell is not
  empty: a record with its \<open>app_name\<close> and \<open>base_image\<close> columns present and acceptable ports
  yields a stage whose base image is the cell, whatever the cell holds.
\<close>

theorem loaded_base_image_verbatim:
  assumes "load_configs_from_excel py rows = Inr cfg" and "(a, stages) \<in> set cfg" and "st \<in> set stages"
  shows "(\<exists>r \<in> set rows. load_row py r = Inr (a, st) \<and> map_of r ''base_image'' = Some (base_image st))
         \<and> (map_of r' ''app_name'' = Some a' \<and> map_of r' ''base_image'' = Some b \<and> load_ports py r' = Inr ps
              \<longrightarrow> (\<exists>st'. load_row py r' = Inr (a', st') \<and> base_image st' = b))"
proof -
  have "(a, st) \<in> set (stage_pairs cfg)"
    using assms(2,3) by (rule stage_pairs_mem)
  then have "\<exists>r \<in> set rows. load_row py r = Inr (a, st)"
    using load_rows_origin[of py rows "[]" cfg a st] assms(1)
    by (simp add: load_configs_from_excel_def stage_pairs_Nil)
  then show ?thesis
    using load_row_fields load_row_succeeds by blast
qed

lemma empty_image_loads: "load_row python empty_image_row = Inr (''svc3'', stage_defaults None '''')"
  by code_simp

lemma empty_image_batch: "load_configs_from_excel python [empty_image_row] = Inr [(''svc3'', [stage_defaults None ''''])]"
  by (simp add: load_configs_from_excel_def empty_image_loads append_stage_def)

theorem empty_base_image_counterexample:
  "load_configs_from_excel python [empty_image_row] = Inr [(''svc3'', [stage_defaults None ''''])]
   \<and> base_image (stage_defaults None '''') = ''''
   \<and> generate_dockerfile [stage_defaults None ''''] = ''FROM''"
  by (simp add: empty_image_batch generate_dockerfile_def dockerfile_lines_eq block_defs
      strip_def lstrip_def rstrip_def isspace_code)

theorem loaded_base_image_verbatim_witness:
  "load_configs_from_excel python [empty_image_row] = Inr [(''svc3'', [stage_defaults None ''''])]
   \<and> (''svc3'', [stage_defaults None '''']) \<in> set [(''svc3'', [stage_defaults None ''''])]
   \<and> stage_defaults None '''' \<in> set [stage_defaults None '''']
   \<and> map_of empty_image_row ''app_name'' = Some ''svc3''
   \<and> map_of empty_image_row ''base_image'' = Some ''''
   \<and> load_ports python empty_image_row = Inr []
   \<and> (\<exists>r \<in> set [empty_image_row]. load_row python r = Inr (''svc3'', stage_defaults None '''')
          \<and> map_of r ''base_image'' = Some (base_image (stage_defaults None '''')))
   \<and> (\<exists>st'. load_row python empty_image_row = Inr (''svc3'', st') \<and> base_image st' = '''')"
proof -
  have b: "load_configs_from_excel python [empty_image_row] = Inr [(''svc3'', [stage_defaults None ''''])]"
    by (rule empty_image_batch)
  have m: "(''svc3'', [stage_defaults None '''']) \<in> set [(''svc3'', [stage_defaults None ''''])]"
    and s: "stage_defaults None '''' \<in> set [stage_defaults None '''']"
    by simp_all
  have c: "map_of empty_image_row ''app_name'' = Some ''svc3'' \<and> map_of empty_image_row ''base_image'' = Some ''''
           \<and> load_ports python empty_image_row = Inr []"
    by (simp add: empty_image_row_def load_ports_def row_get_def strip_def lstrip_def rstrip_def)
  show ?thesis
    using loaded_base_image_verbatim[OF b m s, of empty_image_row "''svc3''" "''''" "[]"] b m s c
    by blast
qed

lemma good_row_loads: "load_row python good_row = Inr (''svc1'', good_stage)"
  by code_simp

lemma bad_port_row_fails: "load_row python bad_port_row = Inl ValueError"
  by code_simp

lemma fallback_row_loads: "load_row python fallback_row = Inr (''svc4'', fallback_stage)"
  by code_simp

lemma invalid_json_texts:
  "json_loads python ''not valid json'' = None \<and> json_loads python ''/bin/bash -c'' = None"
  by code_simp

lemma load_ports_cong: "map_of r' ''expose_ports'' = map_of r ''expose_ports'' \<Longrightarrow> load_ports py r' = load_ports py r"
  by (simp add: load_ports_def row_get_def)

text \<open>
  C2 (as amended). The loader has no per-record isolation: the first record that raises
  aborts the whole load and no stage is returned. A record raises exactly when the
  \<open>app_name\<close> or \<open>base_image\<close> column is missing or one of its port tokens is rejected by
  \<open>int(float(\<cdot>))\<close>. When every record loads, every record contributes exactly one stage.
\<close>

theorem load_aborts_on_malformed_record:
  "(r \<in> set rows \<and> load_row py r = Inl e \<longrightarrow> (\<exists>e'. load_configs_from_excel py rows = Inl e'))
   \<and> ((\<forall>x \<in> set rows. \<exists>y. load_row py x = Inr y)
         \<longrightarrow> (\<exists>cfg. load_configs_from_excel py rows = Inr cfg \<and> stage_count cfg = length rows))
   \<and> ((\<exists>e. load_row py r = Inl e)
         \<longleftrightarrow> (map_of r ''app_name'' = None \<or> (\<exists>e. load_ports py r = Inl e) \<or> map_of r ''base_image'' = None))"
proof (intro conjI impI)
  assume "r \<in> set rows \<and> load_row py r = Inl e"
  then show "\<exists>e'. load_configs_from_excel py rows = Inl e'"
    using load_rows_error[of r rows py e "[]"] by (simp add: load_configs_from_excel_def)
next
  assume "\<forall>x \<in> set rows. \<exists>y. load_row py x = Inr y"
  then show "\<exists>cfg. load_configs_from_excel py rows = Inr cfg \<and> stage_count cfg = length rows"
    using load_rows_ok[of rows py "[]"] by (simp add: load_configs_from_excel_def stage_count_def)
next
  show "(\<exists>e. load_row py r = Inl e)
         \<longleftrightarrow> (map_of r ''app_name'' = None \<or> (\<exists>e. load_ports py r = Inl e) \<or> map_of r ''base_image'' = None)"
    by (rule load_row_fails_iff)
qed

theorem malformed_record_counterexample:
  "load_row python good_row = Inr (''svc1'', good_stage)
   \<and> load_row python bad_port_row = Inl ValueError
   \<and> load_configs_from_excel python [good_row, bad_port_row] = Inl ValueError"
  by (simp add: load_configs_from_excel_def good_row_loads bad_port_row_fails)

theorem load_aborts_on_malformed_record_witness:
  "bad_port_row \<in> set [good_row, bad_port_row]
   \<and> load_row python bad_port_row = Inl ValueError
   \<and> (\<exists>e'. load_configs_from_excel python [good_row, bad_port_row] = Inl e')
   \<and> load_row python good_row = Inr (''svc1'', good_stage)
   \<and> load_row python empty_image_row = Inr (''svc3'', stage_defaults None '''')
   \<and> (\<exists>cfg. load_configs_from_excel python [good_row, empty_image_row] = Inr cfg \<and> stage_count cfg = 2)"
proof -
  have m: "bad_port_row \<in> set [good_row, bad_port_row] \<and> load_row python bad_port_row = Inl ValueError"
    by (simp add: bad_port_row_fails)
  have a: "\<forall>x \<in> set [good_row, empty_image_row]. \<exists>y. load_row python x = Inr y"
    by (simp add: good_row_loads empty_image_loads)
  have "\<exists>e'. load_configs_from_excel python [good_row, bad_port_row] = Inl e'"
    using load_aborts_on_malformed_record[of bad_port_row "[good_row, bad_port_row]" python ValueError] m
    by blast
  moreover have "\<exists>cfg. load_configs_from_excel python [good_row, empty_image_row] = Inr cfg \<and> stage_count cfg = 2"
    using load_aborts_on_malformed_record[of bad_port_row "[good_row, empty_image_row]" python ValueError] a
    by (auto simp add: numeral_2_eq_2)
  ultimately show ?thesis
    using m good_row_loads empty_image_loads by blast
qed

text \<open>
  C3 (as amended). For a record that loads, a non-blank \<open>add_files\<close> or \<open>copy_pairs\<close> text
  that fails JSON decoding leaves the stage with no Add (Copy) instruction, and a non-blank
  \<open>shell\<close> text that fails JSON decoding is not dropped: the stage's shell is the text's
  whitespace-separated tokens. None of the three fields can make the record raise: any
  record that agrees with a loading one on \<open>app_name\<close>, \<open>base_image\<close> and \<open>expose_ports\<close>
  loads too.
\<close>

theorem json_decode_failure_fallback:
  assumes "load_row py r = Inr (a, st)"
  shows "(strip (row_get r ''add_files'' '''') \<noteq> [] \<and> json_loads py (row_get r ''add_files'' '''') = None
            \<longrightarrow> add st = [])
         \<and> (strip (row_get r ''copy_pairs'' '''') \<noteq> [] \<and> json_loads py (row_get r ''copy_pairs'' '''') = None
            \<longrightarrow> copy st = [])
         \<and> (strip (row_get r ''shell'' '''') \<noteq> [] \<and> json_loads py (row_get r ''shell'' '''') = None
            \<longrightarrow> shell st = Some (split_ws (row_get r ''shell'' '''')))
         \<and> (map_of r' ''app_name'' = map_of r ''app_name'' \<and> map_of r' ''base_image'' = map_of r ''base_image''
              \<and> map_of r' ''expose_ports'' = map_of r ''expose_ports''
            \<longrightarrow> (\<exists>st'. load_row py r' = Inr (a, st')))"
proof -
  note f = load_row_fields[OF assms]
  have "add st = load_add py r" and "copy st = load_copy py r" and "shell st = load_shell py r"
    using f by simp_all
  then have fields:
    "(strip (row_get r ''add_files'' '''') \<noteq> [] \<and> json_loads py (row_get r ''add_files'' '''') = None
        \<longrightarrow> add st = [])
     \<and> (strip (row_get r ''copy_pairs'' '''') \<noteq> [] \<and> json_loads py (row_get r ''copy_pairs'' '''') = None
        \<longrightarrow> copy st = [])
     \<and> (strip (row_get r ''shell'' '''') \<noteq> [] \<and> json_loads py (row_get r ''shell'' '''') = None
        \<longrightarrow> shell st = Some (split_ws (row_get r ''shell'' '''')))"
    by (simp add: load_add_def load_copy_def load_shell_def)
  have "\<exists>st'. load_row py r' = Inr (a, st')"
    if "map_of r' ''app_name'' = map_of r ''app_name'' \<and> map_of r' ''base_image'' = map_of r ''base_image''
        \<and> map_of r' ''expose_ports'' = map_of r ''expose_ports''"
  proof -
    have "load_ports py r' = Inr (expose_ports st)"
      using that f load_ports_cong[of r' r py] by simp
    then show ?thesis
      using that f load_row_succeeds[of r' a "base_image st" py "expose_ports st"] by auto
  qed
  then show ?thesis
    using fields by blast
qed

lemma fallback_stage_text:
  "generate_dockerfile [fallback_stage] = ''FROM alpine'' @ [nl] @ ''SHELL ['' @ [dq] @ ''/bin/bash'' @ [dq] @ '','' @ [dq] @ ''-c'' @ [dq] @ '']''"
  by (simp add: fallback_stage_def generate_dockerfile_def dockerfile_lines_eq block_defs
      strip_def lstrip_def rstrip_def isspace_code)

theorem shell_decode_failure_counterexample:
  "json_loads python ''/bin/bash -c'' = None
   \<and> load_row python fallback_row = Inr (''svc4'', fallback_stage)
   \<and> shell fallback_stage = Some [''/bin/bash'', ''-c'']
   \<and> generate_dockerfile [fallback_stage]
       = ''FROM alpine'' @ [nl] @ ''SHELL ['' @ [dq] @ ''/bin/bash'' @ [dq] @ '','' @ [dq] @ ''-c'' @ [dq] @ '']''"
  using invalid_json_texts fallback_row_loads fallback_stage_text
  by (simp add: fallback_stage_def)

lemma fallback_row_cells:
  "row_get fallback_row ''add_files'' '''' = ''not valid json''
   \<and> row_get fallback_row ''copy_pairs'' '''' = ''not valid json''
   \<and> row_get fallback_row ''shell'' '''' = ''/bin/bash -c''
   \<and> strip ''not valid json'' \<noteq> [] \<and> strip ''/bin/bash -c'' \<noteq> []"
  by (simp add: fallback_row_def row_get_def strip_def lstrip_def rstrip_def isspace_code)

lemma plain_row_agrees:
  "map_of plain_row ''app_name'' = map_of fallback_row ''app_name''
   \<and> map_of plain_row ''base_image'' = map_of fallback_row ''base_image''
   \<and> map_of plain_row ''expose_ports'' = map_of fallback_row ''expose_ports''"
  by (simp add: plain_row_def fallback_row_def)

theorem json_decode_failure_fallback_witness:
  "load_row python fallback_row = Inr (''svc4'', fallback_stage)
   \<and> strip (row_get fallback_row ''add_files'' '''') \<noteq> []
   \<and> json_loads python (row_get fallback_row ''add_files'' '''') = None
   \<and> add fallback_stage = []
   \<and> strip (row_get fallback_row ''copy_pairs'' '''') \<noteq> []
   \<and> json_loads python (row_get fallback_row ''copy_pairs'' '''') = None
   \<and> copy fallback_stage = []
   \<and> strip (row_get fallback_row ''shell'' '''') \<noteq> []
   \<and> json_loads python (row_get fallback_row ''shell'' '''') = None
   \<and> shell fallback_stage = Some (split_ws (row_get fallback_row ''shell'' ''''))
   \<and> map_of plain_row ''app_name'' = map_of fallback_row ''app_name''
   \<and> map_of plain_row ''base_image'' = map_of fallback_row ''base_image''
   \<and> map_of plain_row ''expose_ports'' = map_of fallback_row ''expose_ports''
   \<and> (\<exists>st'. load_row python plain_row = Inr (''svc4'', st'))"
proof -
  note t = json_decode_failure_fallback[OF fallback_row_loads, of plain_row]
  have c: "json_loads python (row_get fallback_row ''add_files'' '''') = None
           \<and> json_loads python (row_get fallback_row ''copy_pairs'' '''') = None
           \<and> json_loads python (row_get fallback_row ''shell'' '''') = None
           \<and> strip (row_get fallback_row ''add_files'' '''') \<noteq> []
           \<and> strip (row_get fallback_row ''copy_pairs'' '''') \<noteq> []
           \<and> strip (row_get fallback_row ''shell'' '''') \<noteq> []"
    using fallback_row_cells invalid_json_texts by simp
  show ?thesis
    using t c plain_row_agrees fallback_row_loads by blast
qed

section \<open>Properties of the artifact store\<close>

lemma rmtree_lookup: "n \<noteq> item \<Longrightarrow> map_of (rmtree item fs) n = map_of fs n"
  by (induction fs) (auto simp add: rmtree_def)

lemma cleanup_loop_gen:
  "distinct (map fst es) \<Longrightarrow> (\<forall>e \<in> set es. map_of fs (fst e) = Some (snd e)) \<Longrightarrow>
   cleanup_loop decide (map fst es) fs acc
     = (filter (\<lambda>e. fst e \<notin> fst ` {d \<in> set es. deleted_entry decide d \<noteq> None}) fs,
        acc @ List.map_filter (deleted_entry decide) es)"
proof (induction es arbitrary: fs acc)
  case Nil
  then show ?case by simp
next
  case (Cons e es)
  obtain n x where e: "e = (n, x)" by (cases e)
  have look: "map_of fs n = Some x" using Cons.prems e by simp
  have d: "distinct (map fst es)" and nn: "n \<notin> fst ` set es" using Cons.prems e by auto
  have rest: "\<forall>e \<in> set es. map_of fs (fst e) = Some (snd e)" using Cons.prems by simp
  show ?case
  proof (cases "deleted_entry decide (n, x)")
    case None
    have step: "cleanup_loop decide (map fst (e # es)) fs acc = cleanup_loop decide (map fst es) fs acc"
      using None look e by (cases x) (auto simp add: deleted_entry_def is_app_dir_def split: option.splits)
    have "fst ` {d \<in> set (e # es). deleted_entry decide d \<noteq> None} = fst ` {d \<in> set es. deleted_entry decide d \<noteq> None}"
      using None e by auto
    then show ?thesis
      using step Cons.IH[OF d rest, of acc] None e by simp
  next
    case (Some r)
    then obtain m cs where x: "x = Dir m cs" and vis: "\<not> startswith_dot n" and dec: "decide n x = Some r"
      by (cases x) (auto simp add: deleted_entry_def is_app_dir_def split: if_splits)
    have step: "cleanup_loop decide (map fst (e # es)) fs acc
                  = cleanup_loop decide (map fst es) (rmtree n fs) (acc @ [r])"
      using look e x vis dec by simp
    have rest': "\<forall>e \<in> set es. map_of (rmtree n fs) (fst e) = Some (snd e)"
    proof
      fix e' assume m: "e' \<in> set es"
      then have "fst e' \<noteq> n" using nn by auto
      then show "map_of (rmtree n fs) (fst e') = Some (snd e')"
        using rest m by (simp add: rmtree_lookup)
    qed
    have sets: "fst ` {d \<in> set (e # es). deleted_entry decide d \<noteq> None}
                  = insert n (fst ` {d \<in> set es. deleted_entry decide d \<noteq> None})"
      using Some e by force
    have "filter (\<lambda>e. fst e \<notin> fst ` {d \<in> set es. deleted_entry decide d \<noteq> None}) (rmtree n fs)
            = filter (\<lambda>e. fst e \<notin> insert n (fst ` {d \<in> set es. deleted_entry decide d \<noteq> None})) fs"
      by (induction fs) (auto simp add: rmtree_def)
    then show ?thesis
      using step Cons.IH[OF d rest', of "acc @ [r]"] Some e sets by simp
  qed
qed

lemma cleanup_loop_eq:
  assumes "distinct (map fst fs)"
  shows "cleanup_loop decide (map fst fs) fs []
           = (filter (\<lambda>e. deleted_entry decide e = None) fs, List.map_filter (deleted_entry decide) fs)"
proof -
  have look: "\<forall>e \<in> set fs. map_of fs (fst e) = Some (snd e)"
    using assms by simp
  have "(fst e \<notin> fst ` {d \<in> set fs. deleted_entry decide d \<noteq> None}) = (deleted_entry decide e = None)"
    if "e \<in> set fs" for e
  proof -
    have "d = e" if "d \<in> set fs" and "fst d = fst e" for d
      using that \<open>e \<in> set fs\<close> assms by (metis eq_key_imp_eq_value prod.collapse)
    then show ?thesis using that by force
  qed
  then have "filter (\<lambda>e. fst e \<notin> fst ` {d \<in> set fs. deleted_entry decide d \<noteq> None}) fs
               = filter (\<lambda>e. deleted_entry decide e = None) fs"
    by (simp cong: filter_cong)
  then show ?thesis
    using cleanup_loop_gen[OF assms look, of decide "[]"] by simp
qed

lemma map_filter_names:
  "(\<And>e r. deleted_entry decide e = Some r \<Longrightarrow> nm r = fst e) \<Longrightarrow>
   map nm (List.map_filter (deleted_entry decide) fs) = map fst (filter (\<lambda>e. deleted_entry decide e \<noteq> None) fs)"
  by (induction fs) (auto split: option.splits)

lemma without_filter:
  assumes "distinct (map fst fs)"
  shows "filter (\<lambda>(n, x). n \<notin> set (map fst (filter Q fs))) fs = filter (\<lambda>e. \<not> Q e) fs"
proof -
  have "(fst e \<notin> set (map fst (filter Q fs))) = (\<not> Q e)" if "e \<in> set fs" for e
  proof -
    have "d = e" if "d \<in> set fs" and "fst d = fst e" for d
      using that \<open>e \<in> set fs\<close> assms by (metis eq_key_imp_eq_value prod.collapse)
    then show ?thesis using that by force
  qed
  then show ?thesis
    by (simp add: case_prod_beta cong: filter_cong)
qed

lemma old_entry_iff:
  "(deleted_entry (decide_old c) e \<noteq> None) = (is_app_dir e \<and> stale c e)"
  by (cases e, cases "snd e")
     (auto simp add: deleted_entry_def decide_old_def stale_def is_app_dir_def Let_def split: node.splits)

lemma old_entry_value:
  "deleted_entry (decide_old c) e = Some r \<Longrightarrow>
     r = (\<lparr>old_app.name = fst e, old_app.last_modified = mtime (snd e),
           old_app.size_mb = size_mb_of (get_directory_size (snd e))\<rparr>, get_directory_size (snd e))"
  by (cases e, cases "snd e")
     (auto simp add: deleted_entry_def decide_old_def mtime_def Let_def split: node.splits if_splits)

lemma empty_entry_iff:
  "(deleted_entry decide_empty e \<noteq> None) = (is_app_dir e \<and> visible_contents (snd e) = [])"
  by (auto simp add: deleted_entry_def decide_empty_def)

lemma empty_entry_value: "deleted_entry decide_empty e = Some r \<Longrightarrow> r = fst e"
  by (auto simp add: deleted_entry_def decide_empty_def split: if_splits)

lemma invalid_entry_name: "deleted_entry decide_invalid e = Some r \<Longrightarrow> invalid_app.name r = fst e"
  by (auto simp add: deleted_entry_def decide_invalid_def Let_def split: if_splits option.splits)

lemma invalid_paths_agree:
  "(decide_invalid item node \<noteq> None) = summary_is_invalid node
   \<and> (preview_invalid_reasons True node \<noteq> []) = summary_is_invalid node"
  by (simp add: decide_invalid_def summary_is_invalid_def preview_invalid_reasons_def Let_def split: option.split)

lemma invalid_entry_iff:
  "(deleted_entry decide_invalid e \<noteq> None) = (is_app_dir e \<and> summary_is_invalid (snd e))"
  using invalid_paths_agree[of "fst e" "snd e"] by (auto simp add: deleted_entry_def)

lemma preview_app_info_name:
  "preview_app_info now days show_empty show_invalid item node = Inr a \<Longrightarrow> preview_app.name a = item"
  by (auto simp add: preview_app_info_def Let_def split: sum.splits)

lemma preview_loop_marked:
  assumes "\<And>e. is_app_dir e \<Longrightarrow>
             \<exists>a. preview_app_info now days show_empty show_invalid (fst e) (snd e) = Inr a \<and> will_be_deleted a = W e"
  shows "\<exists>found total. preview_loop now days show_empty show_invalid fs acc t = Inr (found, total)
           \<and> map preview_app.name (filter will_be_deleted found)
               = map preview_app.name (filter will_be_deleted acc) @ map fst (filter (\<lambda>e. is_app_dir e \<and> W e) fs)"
proof (induction fs arbitrary: acc t)
  case Nil
  then show ?case by simp
next
  case (Cons e fs)
  obtain item node where e: "e = (item, node)" by (cases e)
  show ?case
  proof (cases "is_app_dir e")
    case False
    then show ?thesis using Cons[of acc t] e by simp
  next
    case True
    then obtain a where a: "preview_app_info now days show_empty show_invalid item node = Inr a"
      and w: "will_be_deleted a = W e"
      using assms[of e] e by auto
    have n: "preview_app.name a = item" using a by (rule preview_app_info_name)
    let ?t = "if will_be_deleted a then t + get_directory_size node else t"
    obtain found total where
      l: "preview_loop now days show_empty show_invalid fs (acc @ [a]) ?t = Inr (found, total)"
      and m: "map preview_app.name (filter will_be_deleted found)
                = map preview_app.name (filter will_be_deleted (acc @ [a]))
                  @ map fst (filter (\<lambda>e. is_app_dir e \<and> W e) fs)"
      using Cons[of "acc @ [a]" ?t] by blast
    have step: "preview_loop now days show_empty show_invalid (e # fs) acc t = Inr (found, total)"
      using True e a l by simp
    show ?thesis
      unfolding step using m True e w n by auto
  qed
qed

lemma preview_marked:
  assumes "\<And>e. is_app_dir e \<Longrightarrow>
             \<exists>a. preview_app_info now days show_empty show_invalid (fst e) (snd e) = Inr a \<and> will_be_deleted a = W e"
  shows "marked_for_deletion (preview_cleanup now days show_empty show_invalid (Some fs))
           = map fst (filter (\<lambda>e. is_app_dir e \<and> W e) fs)"
proof -
  obtain found total where
    "preview_loop now days show_empty show_invalid fs [] 0 = Inr (found, total)"
    and "map preview_app.name (filter will_be_deleted found) = map fst (filter (\<lambda>e. is_app_dir e \<and> W e) fs)"
    using preview_loop_marked[of now days show_empty show_invalid W fs "[]" 0] assms by auto
  then show ?thesis
    by (simp add: marked_for_deletion_def preview_cleanup_def)
qed

lemma preview_age_info:
  "cutoff_of now d = Inr c \<Longrightarrow> is_app_dir e \<Longrightarrow>
     \<exists>a. preview_app_info now (Some d) False False (fst e) (snd e) = Inr a \<and> will_be_deleted a = stale c e"
  by (cases e, cases "snd e")
     (auto simp add: preview_app_info_def preview_age_reasons_def preview_empty_reasons_def
        preview_invalid_reasons_def stale_def is_app_dir_def Let_def)

lemma preview_empty_info:
  "\<exists>a. preview_app_info now None True False (fst e) (snd e) = Inr a
        \<and> will_be_deleted a = (visible_contents (snd e) = [])"
  by (simp add: preview_app_info_def preview_age_reasons_def preview_empty_reasons_def
        preview_invalid_reasons_def Let_def)

lemma preview_invalid_info:
  "\<exists>a. preview_app_info now None False True (fst e) (snd e) = Inr a
        \<and> will_be_deleted a = summary_is_invalid (snd e)"
  using invalid_paths_agree[of "fst e" "snd e"]
  by (simp add: preview_app_info_def preview_age_reasons_def preview_empty_reasons_def Let_def)

lemma preview_loop_fails:
  "cutoff_of now d = Inl err \<Longrightarrow>
   preview_loop now (Some d) show_empty show_invalid fs acc t
     = (if list_ex is_app_dir fs then Inl err else Inr (acc, t))"
proof (induction fs arbitrary: acc t)
  case Nil
  then show ?case by simp
next
  case (Cons e fs)
  obtain item node where e: "e = (item, node)" by (cases e)
  have "preview_app_info now (Some d) show_empty show_invalid item node = Inl err"
    using Cons.prems by (simp add: preview_app_info_def preview_age_reasons_def Let_def)
  then show ?case
    using Cons e by simp
qed

lemma cleanup_old_eq:
  assumes "distinct (map fst fs)" and "cutoff_of now d = Inr c"
  shows "cleanup_old_files now d (Some fs)
     = (Inr \<lparr>cleanup_old_response.message =
           ''Cleaned up '' @ str_int (int (length (filter (\<lambda>e. is_app_dir e \<and> stale c e) fs)))
             @ '' apps older than '' @ str_int d @ '' days'',
         cleanup_old_response.deleted_apps =
           map (\<lambda>e. \<lparr>old_app.name = fst e, old_app.last_modified = mtime (snd e),
                      old_app.size_mb = size_mb_of (get_directory_size (snd e))\<rparr>)
             (filter (\<lambda>e. is_app_dir e \<and> stale c e) fs),
         total_size_freed_mb =
           Some (size_mb_of (sum_list (map (\<lambda>e. get_directory_size (snd e))
             (filter (\<lambda>e. is_app_dir e \<and> stale c e) fs))))\<rparr>,
        Some (filter (\<lambda>e. \<not> (is_app_dir e \<and> stale c e)) fs))"
proof -
  have mf: "List.map_filter (deleted_entry (decide_old c)) xs
              = map (\<lambda>e. (\<lparr>old_app.name = fst e, old_app.last_modified = mtime (snd e),
                             old_app.size_mb = size_mb_of (get_directory_size (snd e))\<rparr>,
                           get_directory_size (snd e)))
                  (filter (\<lambda>e. is_app_dir e \<and> stale c e) xs)" for xs
  proof (induction xs)
    case Nil
    then show ?case by simp
  next
    case (Cons e xs)
    show ?case
    proof (cases "deleted_entry (decide_old c) e")
      case None
      then have "\<not> (is_app_dir e \<and> stale c e)" using old_entry_iff[of c e] by simp
      then show ?thesis using None Cons by simp
    next
      case (Some r)
      then have "is_app_dir e \<and> stale c e" using old_entry_iff[of c e] by simp
      then show ?thesis using Some old_entry_value[OF Some] Cons by simp
    qed
  qed
  have keep: "filter (\<lambda>e. deleted_entry (decide_old c) e = None) fs
                = filter (\<lambda>e. \<not> (is_app_dir e \<and> stale c e)) fs"
    using old_entry_iff[of c] by (metis (mono_tags, lifting))
  show ?thesis
    unfolding cleanup_old_files_def
    by (simp add: assms(2) cleanup_loop_eq[OF assms(1)] mf keep comp_def)
qed

lemma cleanup_old_fails:
  "cutoff_of now d = Inl err \<Longrightarrow> cleanup_old_files now d (Some fs) = (Inl err, Some fs)"
  by (simp add: cleanup_old_files_def)
lemma cleanup_empty_eq:
  assumes "distinct (map fst fs)"
  shows "cleanup_empty_response.deleted_apps (fst (cleanup_empty_directories (Some fs)))
           = map fst (filter (\<lambda>e. is_app_dir e \<and> visible_contents (snd e) = []) fs)
         \<and> snd (cleanup_empty_directories (Some fs))
           = Some (filter (\<lambda>e. \<not> (is_app_dir e \<and> visible_contents (snd e) = [])) fs)"
proof -
  have sel: "filter (\<lambda>e. deleted_entry decide_empty e \<noteq> None) fs
                = filter (\<lambda>e. is_app_dir e \<and> visible_contents (snd e) = []) fs"
    by (rule filter_cong[OF refl]) (use empty_entry_iff in blast)
  have keep: "filter (\<lambda>e. deleted_entry decide_empty e = None) fs
                = filter (\<lambda>e. \<not> (is_app_dir e \<and> visible_contents (snd e) = [])) fs"
    by (rule filter_cong[OF refl]) (use empty_entry_iff in blast)
  have "map (\<lambda>r. r) (List.map_filter (deleted_entry decide_empty) fs)
          = map fst (filter (\<lambda>e. deleted_entry decide_empty e \<noteq> None) fs)"
    by (rule map_filter_names) (rule empty_entry_value)
  then have names: "List.map_filter (deleted_entry decide_empty) fs
                 = map fst (filter (\<lambda>e. is_app_dir e \<and> visible_contents (snd e) = []) fs)"
    by (simp only: sel list.map_ident)
  have "cleanup_loop decide_empty (map fst fs) fs []
          = (filter (\<lambda>e. \<not> (is_app_dir e \<and> visible_contents (snd e) = [])) fs,
             map fst (filter (\<lambda>e. is_app_dir e \<and> visible_contents (snd e) = []) fs))"
    by (simp only: cleanup_loop_eq[OF assms] names keep)
  then show ?thesis
    by (simp add: cleanup_empty_directories_def)
qed

lemma cleanup_invalid_eq:
  assumes "distinct (map fst fs)"
  shows "map invalid_app.name (cleanup_invalid_response.deleted_apps (fst (cleanup_invalid_apps (Some fs))))
           = map fst (filter (\<lambda>e. is_app_dir e \<and> summary_is_invalid (snd e)) fs)
         \<and> snd (cleanup_invalid_apps (Some fs))
           = Some (filter (\<lambda>e. \<not> (is_app_dir e \<and> summary_is_invalid (snd e))) fs)"
proof -
  have sel: "filter (\<lambda>e. deleted_entry decide_invalid e \<noteq> None) fs
                = filter (\<lambda>e. is_app_dir e \<and> summary_is_invalid (snd e)) fs"
    by (rule filter_cong[OF refl]) (use invalid_entry_iff in blast)
  have keep: "filter (\<lambda>e. deleted_entry decide_invalid e = None) fs
                = filter (\<lambda>e. \<not> (is_app_dir e \<and> summary_is_invalid (snd e))) fs"
    by (rule filter_cong[OF refl]) (use invalid_entry_iff in blast)
  have "map invalid_app.name (List.map_filter (deleted_entry decide_invalid) fs)
          = map fst (filter (\<lambda>e. deleted_entry decide_invalid e \<noteq> None) fs)"
    by (rule map_filter_names) (rule invalid_entry_name)
  then have names: "map invalid_app.name (List.map_filter (deleted_entry decide_invalid) fs)
                 = map fst (filter (\<lambda>e. is_app_dir e \<and> summary_is_invalid (snd e)) fs)"
    by (simp only: sel)
  have loop: "cleanup_loop decide_invalid (map fst fs) fs []
          = (filter (\<lambda>e. \<not> (is_app_dir e \<and> summary_is_invalid (snd e))) fs,
             List.map_filter (deleted_entry decide_invalid) fs)"
    by (simp only: cleanup_loop_eq[OF assms] keep)
  show ?thesis
    by (simp add: cleanup_invalid_apps_def loop names)
qed

lemma preview_age_marked:
  "cutoff_of now d = Inr c \<Longrightarrow>
   marked_for_deletion (preview_cleanup now (Some d) False False (Some fs))
     = map fst (filter (\<lambda>e. is_app_dir e \<and> stale c e) fs)"
  by (rule preview_marked) (rule preview_age_info)

lemma preview_age_fails:
  "cutoff_of now d = Inl err \<Longrightarrow>
   marked_for_deletion (preview_cleanup now (Some d) show_empty show_invalid (Some fs)) = []"
  by (simp add: marked_for_deletion_def preview_cleanup_def preview_loop_fails)

lemma preview_empty_marked:
  "marked_for_deletion (preview_cleanup now None True False (Some fs))
     = map fst (filter (\<lambda>e. is_app_dir e \<and> visible_contents (snd e) = []) fs)"
  by (rule preview_marked) (rule preview_empty_info)

lemma preview_invalid_marked:
  "marked_for_deletion (preview_cleanup now None False True (Some fs))
     = map fst (filter (\<lambda>e. is_app_dir e \<and> summary_is_invalid (snd e)) fs)"
  by (rule preview_marked) (rule preview_invalid_info)

lemma preview_missing_output: "marked_for_deletion (preview_cleanup now days show_empty show_invalid None) = []"
  by (simp add: marked_for_deletion_def preview_cleanup_def)

lemma without_nothing: "without [] out = out"
  by (cases out) (simp_all add: without_def)

text \<open>
  C6. On every state of the output directory (no two entries of one directory share a
  name), for each criterion alone, the names the preview marks \<open>will_be_deleted\<close> are, in
  listing order, the names the matching cleanup reports as deleted, and the state the
  cleanup leaves is the state without exactly these entries. This includes a day threshold
  whose cutoff is not a datetime: the preview then marks nothing and the cleanup deletes
  nothing.
\<close>

theorem preview_matches_cleanup:
  assumes "well_formed out"
  shows "marked_for_deletion (preview_cleanup now (Some d) False False out)
           = deleted_by_age (fst (cleanup_old_files now d out))
         \<and> snd (cleanup_old_files now d out)
           = without (marked_for_deletion (preview_cleanup now (Some d) False False out)) out
         \<and> marked_for_deletion (preview_cleanup now None True False out)
           = cleanup_empty_response.deleted_apps (fst (cleanup_empty_directories out))
         \<and> snd (cleanup_empty_directories out)
           = without (marked_for_deletion (preview_cleanup now None True False out)) out
         \<and> marked_for_deletion (preview_cleanup now None False True out)
           = map invalid_app.name (cleanup_invalid_response.deleted_apps (fst (cleanup_invalid_apps out)))
         \<and> snd (cleanup_invalid_apps out)
           = without (marked_for_deletion (preview_cleanup now None False True out)) out"
proof (cases out)
  case None
  then show ?thesis
    by (simp add: preview_missing_output cleanup_old_files_def cleanup_empty_directories_def
        cleanup_invalid_apps_def without_def deleted_by_age_def)
next
  case (Some fs)
  then have d: "distinct (map fst fs)" using assms by (simp add: well_formed_def)
  have w: "without (map fst (filter Q fs)) (Some fs) = Some (filter (\<lambda>e. \<not> Q e) fs)" for Q
    by (simp only: without_def option.map without_filter[OF d])
  have old: "marked_for_deletion (preview_cleanup now (Some d) False False (Some fs))
               = deleted_by_age (fst (cleanup_old_files now d (Some fs)))
             \<and> snd (cleanup_old_files now d (Some fs))
               = without (marked_for_deletion (preview_cleanup now (Some d) False False (Some fs))) (Some fs)"
  proof (cases "cutoff_of now d")
    case (Inl err)
    show ?thesis
      unfolding preview_age_fails[OF Inl] cleanup_old_fails[OF Inl] without_nothing
      by (simp add: deleted_by_age_def)
  next
    case (Inr c)
    show ?thesis
      unfolding preview_age_marked[OF Inr] w cleanup_old_eq[OF d Inr]
      by (simp add: deleted_by_age_def comp_def)
  qed
  show ?thesis
    unfolding Some preview_empty_marked preview_invalid_marked w
    using old cleanup_empty_eq[OF d] cleanup_invalid_eq[OF d]
    by (intro conjI) (simp_all only:)
qed








lemma isspace_upper:
  "isspace (if 97 \<le> (of_char c :: nat) \<and> (of_char c :: nat) \<le> 122 then char_of ((of_char c :: nat) - 32) else c)
     = isspace c"
  by (auto simp add: isspace_def Let_def)

lemma upper_lstrip: "lstrip (upper s) = upper (lstrip s)"
  unfolding lstrip_def upper_def dropWhile_map comp_def isspace_upper by (rule refl)

lemma upper_rstrip: "rstrip (upper s) = upper (rstrip s)"
  by (simp add: rstrip_def upper_def rev_map dropWhile_map comp_def isspace_upper)

lemma upper_strip: "strip (upper s) = upper (strip s)"
  by (simp add: strip_def upper_lstrip upper_rstrip)

lemma upper_empty: "(upper s = []) = (s = [])"
  by (simp add: upper_def)

lemma read_only_invalid:
  "summary_is_invalid (Dir m [(''Dockerfile'', File True t)])
     = (strip t = [] \<or> \<not> contains_sub ''FROM '' (upper (strip t)))"
  by (simp add: summary_is_invalid_def dockerfile_of_def read_text_def Let_def)

lemma case_insensitive:
  assumes "upper t = upper t'"
  shows "summary_is_invalid (Dir m [(''Dockerfile'', File True t)])
           = summary_is_invalid (Dir m' [(''Dockerfile'', File True t')])"
proof -
  have u: "upper (strip t) = upper (strip t')"
    using assms upper_strip[of t] upper_strip[of t'] by simp
  then have "(strip t = []) = (strip t' = [])"
    using upper_empty[of "strip t"] upper_empty[of "strip t'"] by simp
  then show ?thesis
    using u by (simp add: read_only_invalid)
qed

lemma decide_invalid_iff:
  "(decide_invalid item node \<noteq> None)
     \<longleftrightarrow> (dockerfile_of node = None
          \<or> (\<exists>f. dockerfile_of node = Some f
                \<and> (read_text f = None
                    \<or> (\<exists>t. read_text f = Some t
                          \<and> (strip t = [] \<or> \<not> contains_sub ''FROM '' (upper (strip t)))))))"
  by (auto simp add: decide_invalid_def Let_def split: option.splits)

lemma contains_sub_iff: "contains_sub n s = (\<exists>P S. s = P @ n @ S)"
proof (induction s)
  case Nil
  then show ?case by auto
next
  case (Cons c cs)
  show ?case
  proof
    assume "contains_sub n (c # cs)"
    then consider "take (length n) (c # cs) = n" | "contains_sub n cs" by auto
    then show "\<exists>P S. c # cs = P @ n @ S"
    proof cases
      case 1
      then have "c # cs = [] @ n @ drop (length n) (c # cs)"
        by (metis append_Nil append_take_drop_id)
      then show ?thesis by blast
    next
      case 2
      then obtain P S where "cs = P @ n @ S" using Cons.IH by blast
      then have "c # cs = (c # P) @ n @ S" by simp
      then show ?thesis by blast
    qed
  next
    assume "\<exists>P S. c # cs = P @ n @ S"
    then obtain P S where e: "c # cs = P @ n @ S" by blast
    show "contains_sub n (c # cs)"
    proof (cases P)
      case Nil
      then have "take (length n) (c # cs) = n" using e by simp
      then show ?thesis by simp
    next
      case (Cons p P')
      then have "cs = P' @ n @ S" using e by simp
      then have "contains_sub n cs" using Cons.IH by blast
      then show ?thesis by simp
    qed
  qed
qed

lemma lstrip_infix: "\<exists>w. s = w @ lstrip s \<and> (\<forall>c \<in> set w. isspace c)"
  unfolding lstrip_def
  by (metis takeWhile_dropWhile_id set_takeWhileD)

lemma rstrip_infix: "\<exists>w. s = rstrip s @ w \<and> (\<forall>c \<in> set w. isspace c)"
proof -
  obtain w where w: "rev s = w @ dropWhile isspace (rev s)" and sp: "\<forall>c \<in> set w. isspace c"
    by (metis takeWhile_dropWhile_id set_takeWhileD)
  have "s = rev (dropWhile isspace (rev s)) @ rev w"
    using w by (metis rev_append rev_rev_ident)
  then show ?thesis using sp unfolding rstrip_def by (metis set_rev)
qed

lemma strip_infix: "\<exists>w v. s = w @ strip s @ v"
proof -
  obtain w where w: "s = w @ lstrip s" using lstrip_infix by blast
  obtain v where v: "lstrip s = rstrip (lstrip s) @ v" using rstrip_infix by blast
  have "s = w @ strip s @ v" using w v unfolding strip_def by simp
  then show ?thesis by blast
qed

lemma mentions_from_strip:
  assumes "contains_sub ''FROM '' (upper (strip t))"
  shows "mentions_from t"
proof -
  obtain P S where e: "upper (strip t) = P @ ''FROM '' @ S"
    using assms contains_sub_iff by blast
  obtain w v where t: "t = w @ strip t @ v" using strip_infix by blast
  have "upper t = upper w @ upper (strip t) @ upper v"
    by (subst t) (simp add: upper_def)
  then have "upper t = (upper w @ P) @ ''FROM'' @ ('' '' @ S @ upper v)"
    using e by simp
  then show ?thesis unfolding mentions_from_def contains_sub_iff by blast
qed

lemma lstrip_keeps:
  "\<not> isspace a \<Longrightarrow> \<exists>P. lstrip (pre @ a # rest) = P @ a # rest"
  unfolding lstrip_def by (cases "\<forall>c \<in> set pre. isspace c") (auto simp add: dropWhile_append)

lemma rstrip_keeps:
  "\<not> isspace b \<Longrightarrow> \<exists>S. rstrip (front @ b # post) = front @ b # S"
proof -
  assume nb: "\<not> isspace b"
  have "\<exists>Q. dropWhile isspace (rev post @ b # rev front) = Q @ b # rev front"
    using nb by (cases "\<forall>c \<in> set (rev post). isspace c") (auto simp add: dropWhile_append)
  then obtain Q where "dropWhile isspace (rev post @ b # rev front) = Q @ b # rev front" by blast
  then have "rstrip (front @ b # post) = front @ b # rev Q"
    by (simp add: rstrip_def)
  then show ?thesis by blast
qed

lemma strip_keeps:
  assumes "\<not> isspace a" and "\<not> isspace b"
  shows "\<exists>P S. strip (pre @ a # mid @ b # post) = P @ a # mid @ b # S"
proof -
  obtain P where P: "lstrip (pre @ a # mid @ b # post) = P @ a # mid @ b # post"
    using lstrip_keeps[OF assms(1)] by blast
  obtain S where "rstrip ((P @ a # mid) @ b # post) = (P @ a # mid) @ b # S"
    using rstrip_keeps[OF assms(2)] by blast
  then show ?thesis unfolding strip_def P by auto
qed

lemma split_on_prefix: "\<exists>post. t = hd (split_on c t) @ post"
proof (induction t)
  case Nil
  then show ?case by simp
next
  case (Cons x xs)
  obtain u us where u: "split_on c xs = u # us"
    using split_on_nonempty[of c xs] by (cases "split_on c xs") auto
  then obtain post where "xs = u @ post" using Cons by auto
  then show ?case using u by auto
qed

lemma split_on_infix: "l \<in> set (split_on c t) \<Longrightarrow> \<exists>pre post. t = pre @ l @ post"
proof (induction t arbitrary: l)
  case Nil
  then show ?case by simp
next
  case (Cons x xs)
  obtain u us where u: "split_on c xs = u # us"
    using split_on_nonempty[of c xs] by (cases "split_on c xs") auto
  show ?case
  proof (cases "x = c")
    case True
    then consider "l = []" | "l \<in> set (split_on c xs)" using Cons.prems by auto
    then show ?thesis
    proof cases
      case 1
      then have "x # xs = [] @ l @ (x # xs)" by simp
      then show ?thesis by blast
    next
      case 2
      then obtain pre post where "xs = pre @ l @ post" using Cons.IH by blast
      then have "x # xs = (x # pre) @ l @ post" by simp
      then show ?thesis by blast
    qed
  next
    case False
    then consider "l = x # u" | "l \<in> set us" using Cons.prems u by auto
    then show ?thesis
    proof cases
      case 1
      obtain post where "xs = u @ post" using split_on_prefix[of xs c] u by auto
      then have "x # xs = [] @ l @ post" using 1 by simp
      then show ?thesis by blast
    next
      case 2
      then have "l \<in> set (split_on c xs)" using u by simp
      then obtain pre post where "xs = pre @ l @ post" using Cons.IH by blast
      then have "x # xs = (x # pre) @ l @ post" by simp
      then show ?thesis by blast
    qed
  qed
qed

lemma all_space_strip: "\<forall>c \<in> set r. isspace c \<Longrightarrow> strip r = []"
proof -
  assume "\<forall>c \<in> set r. isspace c"
  then have "dropWhile isspace r = []" using dropWhile_eq_Nil_conv by blast
  then show ?thesis unfolding strip_def lstrip_def rstrip_def by (simp only: rev.simps dropWhile.simps)
qed

lemma upper_append: "upper (a @ b) = upper a @ upper b"
  by (simp add: upper_def)

lemma from_instruction_found:
  assumes "has_from_instruction t"
  shows "contains_sub ''FROM '' (upper (strip t))"
proof -
  obtain l where l: "l \<in> set (split_on nl t)" and f: "from_instruction_line l"
    using assms by (auto simp add: has_from_instruction_def list_ex_iff)
  obtain pre post where t: "t = pre @ l @ post"
    using split_on_infix[OF l] by blast
  define u where "u = lstrip (upper l)"
  have tk: "take 5 u = ''FROM ''" and arg: "strip (drop 5 u) \<noteq> []"
    using f by (simp_all add: from_instruction_line_def Let_def u_def upper_lstrip)
  have "\<not> (\<forall>c \<in> set (drop 5 u). isspace c)"
    using arg all_space_strip by blast
  then obtain x where "x \<in> set (drop 5 u)" and nx: "\<not> isspace x" by blast
  then obtain r1 r2 where r: "drop 5 u = r1 @ x # r2"
    by (meson split_list)
  have u: "u = ''FROM '' @ r1 @ x # r2"
    using tk r append_take_drop_id[of 5 u] by simp
  obtain w where w: "upper l = w @ u"
    using lstrip_infix[of "upper l"] unfolding u_def by blast
  have "upper t = (upper pre @ w) @ CHR ''F'' # (''ROM '' @ r1) @ x # (r2 @ upper post)"
    by (subst t) (simp add: upper_append w u)
  moreover obtain P S where
    "strip ((upper pre @ w) @ CHR ''F'' # (''ROM '' @ r1) @ x # (r2 @ upper post))
       = P @ CHR ''F'' # (''ROM '' @ r1) @ x # S"
    using strip_keeps[OF not_isspace_F nx] by blast
  ultimately have "strip (upper t) = P @ ''FROM '' @ (r1 @ x # S)"
    by simp
  then have "contains_sub ''FROM '' (strip (upper t))"
    unfolding contains_sub_iff by blast
  then show ?thesis by (simp add: upper_strip)
qed

lemma summary_is_invalid_iff:
  "summary_is_invalid node
     = (case dockerfile_text node of
          None \<Rightarrow> True
        | Some t \<Rightarrow> strip t = [] \<or> \<not> contains_sub ''FROM '' (upper (strip t)))"
  by (simp add: summary_is_invalid_def dockerfile_text_def Let_def split: option.split)

lemma dockerfile_text_cases:
  "(dockerfile_text node = None) = (dockerfile_of node = None \<or> dockerfile_unreadable node)"
  by (simp add: dockerfile_text_def dockerfile_unreadable_def split: option.split)

text \<open>
  C7 (as amended). An application directory is classified invalid when it has no
  \<open>Dockerfile\<close> entry, when the entry cannot be read, when its text is empty after stripping
  whitespace, and when its text does not name \<open>FROM\<close> in any letter case. A directory whose
  Dockerfile can be read and holds a \<open>FROM\<close> instruction (the keyword in any letter case, a
  space and an image name) is classified valid, and every directory classified valid has
  a readable Dockerfile that is not blank and names \<open>FROM\<close>. The cleanup, the preview and
  the storage summary classify alike, and two Dockerfile texts that differ only in the case
  of ASCII letters are classified alike.
\<close>

theorem invalid_classification:
  "(dockerfile_of node = None \<longrightarrow> summary_is_invalid node)
   \<and> (dockerfile_unreadable node \<longrightarrow> summary_is_invalid node)
   \<and> (dockerfile_text node = Some t \<and> strip t = [] \<longrightarrow> summary_is_invalid node)
   \<and> (dockerfile_text node = Some t \<and> \<not> mentions_from t \<longrightarrow> summary_is_invalid node)
   \<and> (dockerfile_text node = Some t \<and> has_from_instruction t \<longrightarrow> \<not> summary_is_invalid node)
   \<and> (\<not> summary_is_invalid node \<longrightarrow>
        (\<exists>t. dockerfile_text node = Some t \<and> strip t \<noteq> [] \<and> mentions_from t))
   \<and> (decide_invalid item node \<noteq> None) = summary_is_invalid node
   \<and> (preview_invalid_reasons True node \<noteq> []) = summary_is_invalid node
   \<and> (upper t1 = upper t2
        \<longrightarrow> summary_is_invalid (Dir m [(''Dockerfile'', File True t1)])
            = summary_is_invalid (Dir m' [(''Dockerfile'', File True t2)]))"
proof -
  have a: "dockerfile_of node = None \<longrightarrow> summary_is_invalid node"
    and b: "dockerfile_unreadable node \<longrightarrow> summary_is_invalid node"
    using dockerfile_text_cases[of node] by (auto simp add: summary_is_invalid_iff)
  have c: "dockerfile_text node = Some t \<and> strip t = [] \<longrightarrow> summary_is_invalid node"
    by (simp add: summary_is_invalid_iff)
  have d: "dockerfile_text node = Some t \<and> \<not> mentions_from t \<longrightarrow> summary_is_invalid node"
    using mentions_from_strip[of t] by (auto simp add: summary_is_invalid_iff)
  have e: "dockerfile_text node = Some t \<and> has_from_instruction t \<longrightarrow> \<not> summary_is_invalid node"
  proof (intro impI, elim conjE)
    assume tx: "dockerfile_text node = Some t" and h: "has_from_instruction t"
    have found: "contains_sub ''FROM '' (upper (strip t))" using h by (rule from_instruction_found)
    then have "upper (strip t) \<noteq> []" by (auto simp add: contains_sub_iff)
    then have "strip t \<noteq> []" by (simp add: upper_empty)
    then show "\<not> summary_is_invalid node" using tx found by (simp add: summary_is_invalid_iff)
  qed
  have f: "\<not> summary_is_invalid node \<longrightarrow>
             (\<exists>t. dockerfile_text node = Some t \<and> strip t \<noteq> [] \<and> mentions_from t)"
    using mentions_from_strip by (auto simp add: summary_is_invalid_iff split: option.splits)
  show ?thesis
    using a b c d e f invalid_paths_agree[of item node] case_insensitive[of t1 t2 m m']
    by blast
qed

lemma locked_app_invalid:
  "dockerfile_of locked_app = Some (File False ''FROM alpine'')
   \<and> strip ''FROM alpine'' \<noteq> []
   \<and> has_from_instruction ''FROM alpine''
   \<and> summary_is_invalid locked_app
   \<and> decide_invalid ''locked'' locked_app = Some \<lparr>invalid_app.name = ''locked'', reason = ''Error reading Dockerfile''\<rparr>"
  by code_simp

theorem unreadable_dockerfile_counterexample:
  "dockerfile_of locked_app = Some (File False ''FROM alpine'')
   \<and> strip ''FROM alpine'' \<noteq> []
   \<and> has_from_instruction ''FROM alpine''
   \<and> summary_is_invalid locked_app
   \<and> decide_invalid ''locked'' locked_app = Some \<lparr>invalid_app.name = ''locked'', reason = ''Error reading Dockerfile''\<rparr>"
  by (rule locked_app_invalid)

text \<open>
  The source decides the last case by searching the upper-cased text for \<open>FROM\<close> followed by
  a space. Three texts on which the search and a reading of the instructions part.
\<close>

lemma from_in_a_comment_is_valid:
  "summary_is_invalid (Dir 0 [(''Dockerfile'', File True ''RUN echo copied from here'')]) = False
   \<and> has_from_instruction ''RUN echo copied from here'' = False"
  by code_simp

lemma from_without_space_is_invalid:
  "summary_is_invalid (Dir 0 [(''Dockerfile'', File True ''FROM'')]) = True"
  by code_simp

lemma from_before_a_tab_is_invalid:
  "summary_is_invalid (Dir 0 [(''Dockerfile'', File True (''FROM'' @ [CHR 0x09] @ ''alpine''))]) = True"
  by code_simp
lemma blank_output_cleanup:
  "cleanup_invalid_apps blank_output
     = (\<lparr>cleanup_invalid_response.message = ''Cleaned up 1 invalid app directories'',
         cleanup_invalid_response.deleted_apps = [\<lparr>invalid_app.name = ''blank'', reason = ''Empty Dockerfile''\<rparr>]\<rparr>,
        Some [(''new'', Dir (day 17) [(''Dockerfile'', File True ''FROM alpine'')])])"
  by code_simp

lemma blank_output_preview:
  "marked_for_deletion (preview_cleanup (day 20) None False True blank_output) = [''blank'']"
  by code_simp

lemma upper_example: "upper ''from alpine'' = upper ''FROM Alpine''"
  by code_simp

lemma lower_case_from_is_valid:
  "summary_is_invalid (Dir (day 17) [(''Dockerfile'', File True ''from alpine'')]) = False
   \<and> summary_is_invalid (Dir (day 17) [(''Dockerfile'', File True ''FROM Alpine'')]) = False"
  by code_simp

lemma classification_examples:
  "dockerfile_of (Dir (day 18) [(''.keep'', File True '''')]) = None
   \<and> dockerfile_unreadable locked_app
   \<and> dockerfile_text (Dir (day 19) [(''Dockerfile'', File True '''')]) = Some ''''
   \<and> strip '''' = ''''
   \<and> dockerfile_text (Dir (day 5) [(''Dockerfile'', File True ''RUN make'')]) = Some ''RUN make''
   \<and> \<not> mentions_from ''RUN make''
   \<and> dockerfile_text (Dir (day 17) [(''Dockerfile'', File True ''from alpine'')]) = Some ''from alpine''
   \<and> has_from_instruction ''from alpine''"
  by code_simp

theorem invalid_classification_witness:
  "dockerfile_of (Dir (day 18) [(''.keep'', File True '''')]) = None
   \<and> summary_is_invalid (Dir (day 18) [(''.keep'', File True '''')])
   \<and> dockerfile_unreadable locked_app
   \<and> summary_is_invalid locked_app
   \<and> dockerfile_text (Dir (day 19) [(''Dockerfile'', File True '''')]) = Some ''''
   \<and> strip '''' = ''''
   \<and> summary_is_invalid (Dir (day 19) [(''Dockerfile'', File True '''')])
   \<and> decide_invalid ''blank'' (Dir (day 19) [(''Dockerfile'', File True '''')]) \<noteq> None
   \<and> preview_invalid_reasons True (Dir (day 19) [(''Dockerfile'', File True '''')]) \<noteq> []
   \<and> dockerfile_text (Dir (day 5) [(''Dockerfile'', File True ''RUN make'')]) = Some ''RUN make''
   \<and> \<not> mentions_from ''RUN make''
   \<and> summary_is_invalid (Dir (day 5) [(''Dockerfile'', File True ''RUN make'')])
   \<and> dockerfile_text (Dir (day 17) [(''Dockerfile'', File True ''from alpine'')]) = Some ''from alpine''
   \<and> has_from_instruction ''from alpine''
   \<and> \<not> summary_is_invalid (Dir (day 17) [(''Dockerfile'', File True ''from alpine'')])
   \<and> strip ''from alpine'' \<noteq> []
   \<and> mentions_from ''from alpine''
   \<and> upper ''from alpine'' = upper ''FROM Alpine''
   \<and> \<not> summary_is_invalid (Dir (day 17) [(''Dockerfile'', File True ''FROM Alpine'')])"
proof -
  define hollow where "hollow = Dir (day 18) [(''.keep'', File True '''')]"
  define blank where "blank = Dir (day 19) [(''Dockerfile'', File True '''')]"
  define plain where "plain = Dir (day 5) [(''Dockerfile'', File True ''RUN make'')]"
  define new where "new = Dir (day 17) [(''Dockerfile'', File True ''from alpine'')]"
  define t where "t = ''from alpine''"
  define t' where "t' = ''FROM Alpine''"
  define p where "p = ''RUN make''"
  note ex = classification_examples[folded hollow_def blank_def plain_def new_def t_def p_def]
  have h: "dockerfile_of hollow = None" and l: "dockerfile_unreadable locked_app"
    and b: "dockerfile_text blank = Some ''''" and s: "strip '''' = ''''"
    and q: "dockerfile_text plain = Some p" and m: "\<not> mentions_from p"
    and n: "dockerfile_text new = Some t" and f: "has_from_instruction t"
    using ex by blast+
  have u: "upper t = upper t'"
    unfolding t_def t'_def by (rule upper_example)
  have 1: "summary_is_invalid hollow"
    using invalid_classification[of hollow "''''" "''hollow''" t t' "day 17" "day 17"] h by blast
  have 2: "summary_is_invalid locked_app"
    using invalid_classification[of locked_app "''''" "''locked''" t t' "day 17" "day 17"] l by blast
  have 3: "summary_is_invalid blank \<and> decide_invalid ''blank'' blank \<noteq> None
           \<and> preview_invalid_reasons True blank \<noteq> []"
    using invalid_classification[of blank "''''" "''blank''" t t' "day 17" "day 17"] b s by blast
  have 4: "summary_is_invalid plain"
    using invalid_classification[of plain p "''plain''" t t' "day 17" "day 17"] q m by blast
  note e = invalid_classification[of new t "''new''" t t' "day 17" "day 17"]
  have 5: "\<not> summary_is_invalid new"
    using e n f by blast
  have 6: "strip t \<noteq> [] \<and> mentions_from t"
    using e 5 n by auto
  have 7: "\<not> summary_is_invalid (Dir (day 17) [(''Dockerfile'', File True t')])"
    using e u 5 unfolding new_def t_def[symmetric] by blast
  show ?thesis
    using h l b s q m n f u 1 2 3 4 5 6 7
    unfolding hollow_def blank_def plain_def new_def t_def t'_def p_def
    by blast
qed
lemma summary_counts_eq:
  "get_storage_summary (Some fs)
     = \<lparr>output_directory_exists = True,
        storage_summary.total_apps = length (filter is_app_dir fs),
        total_size_mb = size_mb_of (sum_list (map (\<lambda>(item, node). get_directory_size node) (filter is_app_dir fs))),
        counts = Some \<lparr>valid_apps = length (filter (\<lambda>a. has_dockerfile a \<and> \<not> is_invalid a)
                                        (map (\<lambda>(item, node). summary_app_info item node) (filter is_app_dir fs))),
                        empty_directories = length (filter is_empty
                                        (map (\<lambda>(item, node). summary_app_info item node) (filter is_app_dir fs))),
                        invalid_apps = length (filter is_invalid
                                        (map (\<lambda>(item, node). summary_app_info item node) (filter is_app_dir fs))),
                        can_cleanup_empty = (0 < length (filter is_empty
                                        (map (\<lambda>(item, node). summary_app_info item node) (filter is_app_dir fs)))),
                        can_cleanup_invalid = (0 < length (filter is_invalid
                                        (map (\<lambda>(item, node). summary_app_info item node) (filter is_app_dir fs)))),
                        total_cleanable_items = length (filter is_empty
                                        (map (\<lambda>(item, node). summary_app_info item node) (filter is_app_dir fs)))
                                      + length (filter is_invalid
                                        (map (\<lambda>(item, node). summary_app_info item node) (filter is_app_dir fs)))\<rparr>,
        storage_summary.apps = sorted_newest_first (map (\<lambda>(item, node). summary_app_info item node) (filter is_app_dir fs))\<rparr>"
  by (simp only: get_storage_summary_def Let_def option.case length_map)

lemma valid_has_dockerfile:
  "\<not> is_invalid (summary_app_info item node) \<Longrightarrow> has_dockerfile (summary_app_info item node)"
  by (auto simp add: summary_app_info_def summary_is_invalid_def Let_def split: option.splits)

lemma sorted_newest_first_filter_length:
  "length (filter P (sorted_newest_first xs)) = length (filter P xs)"
proof -
  have "length (filter P (rev (sort_key f (rev xs)))) = length (filter P xs)" for f :: "summary_app \<Rightarrow> int"
    by (simp only: rev_filter[symmetric] length_rev filter_sort length_sort)
  then show ?thesis by (simp add: sorted_newest_first_def)
qed

lemma sorted_newest_first_set: "set (sorted_newest_first xs) = set xs"
  by (simp add: sorted_newest_first_def)

text \<open>
  C10. In every storage summary of an existing output directory, an application is counted
  valid exactly when it is not flagged invalid, an application that is not flagged invalid
  has a Dockerfile, and the valid and invalid counts add up to the number of listed
  applications.
\<close>

theorem summary_partition:
  assumes "counts (get_storage_summary out) = Some c"
  shows "valid_apps c + invalid_apps c = storage_summary.total_apps (get_storage_summary out)
         \<and> valid_apps c = length (filter (\<lambda>a. \<not> is_invalid a) (storage_summary.apps (get_storage_summary out)))
         \<and> invalid_apps c = length (filter is_invalid (storage_summary.apps (get_storage_summary out)))
         \<and> storage_summary.total_apps (get_storage_summary out)
             = length (storage_summary.apps (get_storage_summary out))
         \<and> list_all (\<lambda>a. is_invalid a \<or> has_dockerfile a) (storage_summary.apps (get_storage_summary out))"
proof -
  obtain fs where out: "out = Some fs"
    using assms by (cases out) (simp_all add: get_storage_summary_def)
  define found where "found = map (\<lambda>(item, node). summary_app_info item node) (filter is_app_dir fs)"
  have hd: "is_invalid a \<or> has_dockerfile a" if "a \<in> set found" for a
    using that valid_has_dockerfile by (auto simp add: found_def)
  then have same: "filter (\<lambda>a. has_dockerfile a \<and> \<not> is_invalid a) found = filter (\<lambda>a. \<not> is_invalid a) found"
    by (intro filter_cong[OF refl]) blast
  have c: "c = \<lparr>valid_apps = length (filter (\<lambda>a. \<not> is_invalid a) found),
                empty_directories = length (filter is_empty found),
                invalid_apps = length (filter is_invalid found),
                can_cleanup_empty = (0 < length (filter is_empty found)),
                can_cleanup_invalid = (0 < length (filter is_invalid found)),
                total_cleanable_items = length (filter is_empty found) + length (filter is_invalid found)\<rparr>"
    using assms unfolding out summary_counts_eq found_def[symmetric] same by simp
  have apps: "storage_summary.apps (get_storage_summary out) = sorted_newest_first found"
    and total: "storage_summary.total_apps (get_storage_summary out) = length found"
    unfolding out summary_counts_eq found_def by simp_all
  have sum: "length (filter (\<lambda>a. \<not> is_invalid a) found) + length (filter is_invalid found) = length found"
    using sum_length_filter_compl[of is_invalid found] by simp
  have len: "length (sorted_newest_first found) = length found"
    using sorted_newest_first_filter_length[of "\<lambda>a. True" found] by simp
  have all: "list_all (\<lambda>a. is_invalid a \<or> has_dockerfile a) (sorted_newest_first found)"
    using hd by (simp add: list_all_iff sorted_newest_first_set)
  show ?thesis
    unfolding apps total c using sum len all by (simp add: sorted_newest_first_filter_length)
qed

lemma mixed_output_summary:
  "counts (get_storage_summary mixed_output)
     = Some \<lparr>valid_apps = 2, empty_directories = 1, invalid_apps = 2, can_cleanup_empty = True,
             can_cleanup_invalid = True, total_cleanable_items = 3\<rparr>
   \<and> storage_summary.total_apps (get_storage_summary mixed_output) = 4
   \<and> map summary_app.name (storage_summary.apps (get_storage_summary mixed_output))
       = [''blank'', ''hollow'', ''new'', ''old'']
   \<and> map is_invalid (storage_summary.apps (get_storage_summary mixed_output)) = [True, True, False, False]"
  by code_simp

theorem summary_partition_witness:
  "counts (get_storage_summary mixed_output)
     = Some \<lparr>valid_apps = 2, empty_directories = 1, invalid_apps = 2, can_cleanup_empty = True,
             can_cleanup_invalid = True, total_cleanable_items = 3\<rparr>
   \<and> storage_summary.total_apps (get_storage_summary mixed_output) = 4
   \<and> (2::nat) + 2 = 4
   \<and> map is_invalid (storage_summary.apps (get_storage_summary mixed_output)) = [True, True, False, False]"
proof -
  have c: "counts (get_storage_summary mixed_output)
     = Some \<lparr>valid_apps = 2, empty_directories = 1, invalid_apps = 2, can_cleanup_empty = True,
             can_cleanup_invalid = True, total_cleanable_items = 3\<rparr>"
    using mixed_output_summary by blast
  note t = summary_partition[OF c]
  show ?thesis
    using t mixed_output_summary by simp
qed

lemma mixed_output_marks:
  "well_formed mixed_output
   \<and> marked_for_deletion (preview_cleanup (day 20) (Some 7) False False mixed_output) = [''old'']
   \<and> marked_for_deletion (preview_cleanup (day 20) None True False mixed_output) = [''hollow'']
   \<and> marked_for_deletion (preview_cleanup (day 20) None False True mixed_output) = [''blank'', ''hollow'']"
  by code_simp

lemma mixed_output_deleted:
  "deleted_by_age (fst (cleanup_old_files (day 20) 7 mixed_output)) = [''old'']
   \<and> cleanup_empty_response.deleted_apps (fst (cleanup_empty_directories mixed_output)) = [''hollow'']
   \<and> map invalid_app.name (cleanup_invalid_response.deleted_apps (fst (cleanup_invalid_apps mixed_output)))
       = [''blank'', ''hollow'']"
  by code_simp
lemma mixed_output_far_threshold:
  "marked_for_deletion (preview_cleanup (day 20) (Some 21) False False mixed_output) = []
   \<and> cleanup_old_files (day 20) 21 mixed_output = (Inl OverflowError, mixed_output)"
  by code_simp

theorem preview_matches_cleanup_witness:
  "well_formed mixed_output
   \<and> marked_for_deletion (preview_cleanup (day 20) (Some 7) False False mixed_output) = [''old'']
   \<and> deleted_by_age (fst (cleanup_old_files (day 20) 7 mixed_output)) = [''old'']
   \<and> marked_for_deletion (preview_cleanup (day 20) None True False mixed_output) = [''hollow'']
   \<and> cleanup_empty_response.deleted_apps (fst (cleanup_empty_directories mixed_output)) = [''hollow'']
   \<and> marked_for_deletion (preview_cleanup (day 20) None False True mixed_output) = [''blank'', ''hollow'']
   \<and> map invalid_app.name (cleanup_invalid_response.deleted_apps (fst (cleanup_invalid_apps mixed_output)))
       = [''blank'', ''hollow'']
   \<and> marked_for_deletion (preview_cleanup (day 20) (Some 21) False False mixed_output) = []
   \<and> deleted_by_age (fst (cleanup_old_files (day 20) 21 mixed_output)) = []
   \<and> snd (cleanup_old_files (day 20) 21 mixed_output) = mixed_output"
proof -
  have w: "well_formed mixed_output"
    using mixed_output_marks by blast
  note t = preview_matches_cleanup[OF w, of "day 20" 7]
  note u = preview_matches_cleanup[OF w, of "day 20" 21]
  have "deleted_by_age (fst (cleanup_old_files (day 20) 21 mixed_output)) = []
        \<and> snd (cleanup_old_files (day 20) 21 mixed_output) = mixed_output"
    using u mixed_output_far_threshold by (simp add: without_nothing)
  then show ?thesis
    using t mixed_output_marks mixed_output_deleted mixed_output_far_threshold by blast
qed

end
